theory Spec2Isabelle
  imports Complex_Main "HOL-Library.Multiset"
begin

section \<open>JavaScript numbers\<close>

text \<open>
  The store locator (\<^verbatim>\<open>NearbyStores.tsx\<close>, and with the same code
  \<^verbatim>\<open>StoreMap.tsx\<close>) computes on JavaScript numbers. A number is modelled as a real,
  or one of the three special values. The arithmetic operators and the functions of
  \<^verbatim>\<open>Math\<close> are exact on finite numbers: their results are not rounded to binary64
  (the sine of \<^verbatim>\<open>Math.PI\<close>, for one, is \<open>0\<close>), and there is one zero (a zero divisor
  and a zero argument of \<open>atan2\<close> behave as \<open>+0\<close>). The rounding is modelled where a
  result depends on it: in the product whose digits \<^verbatim>\<open>formatDistance\<close> writes, in
  the range of \<^verbatim>\<open>parseFloat\<close>, and in a second rendering of
  \<^verbatim>\<open>calculateDistance\<close> in which every operation is rounded.
\<close>

datatype number = Fin real | PosInf | NegInf | NaN

fun sign_of :: "number \<Rightarrow> int" where
  "sign_of (Fin x) = (if x < 0 then - 1 else if x = 0 then 0 else 1)"
| "sign_of PosInf = 1"
| "sign_of NegInf = - 1"
| "sign_of NaN = 0"

definition signed_inf :: "int \<Rightarrow> number" where
  "signed_inf s = (if s = 0 then NaN else if 0 < s then PosInf else NegInf)"

definition trunc :: "real \<Rightarrow> real" where
  "trunc r = (if 0 \<le> r then of_int \<lfloor>r\<rfloor> else of_int \<lceil>r\<rceil>)"

instantiation number :: "{plus, minus, uminus, times, inverse, modulo, ord}"
begin

fun uminus_number :: "number \<Rightarrow> number" where
  "uminus_number (Fin x) = Fin (- x)"
| "uminus_number PosInf = NegInf"
| "uminus_number NegInf = PosInf"
| "uminus_number NaN = NaN"

fun plus_number :: "number \<Rightarrow> number \<Rightarrow> number" where
  "plus_number (Fin x) (Fin y) = Fin (x + y)"
| "plus_number NaN b = NaN"
| "plus_number a NaN = NaN"
| "plus_number PosInf NegInf = NaN"
| "plus_number NegInf PosInf = NaN"
| "plus_number PosInf b = PosInf"
| "plus_number NegInf b = NegInf"
| "plus_number (Fin x) b = b"

definition minus_number :: "number \<Rightarrow> number \<Rightarrow> number" where
  "minus_number a b = a + (- b)"

fun times_number :: "number \<Rightarrow> number \<Rightarrow> number" where
  "times_number (Fin x) (Fin y) = Fin (x * y)"
| "times_number NaN b = NaN"
| "times_number a NaN = NaN"
| "times_number a b = signed_inf (sign_of a * sign_of b)"

fun divide_number :: "number \<Rightarrow> number \<Rightarrow> number" where
  "divide_number (Fin x) (Fin y) = (if y = 0 then signed_inf (sign_of (Fin x)) else Fin (x / y))"
| "divide_number NaN b = NaN"
| "divide_number a NaN = NaN"
| "divide_number (Fin x) b = Fin 0"
| "divide_number a (Fin y) = signed_inf (sign_of a * (if y < 0 then - 1 else 1))"
| "divide_number a b = NaN"

definition inverse_number :: "number \<Rightarrow> number" where
  "inverse_number a = Fin 1 div a"

text \<open>The remainder operator \<^verbatim>\<open>%\<close>: the result has the sign of the dividend.\<close>

fun modulo_number :: "number \<Rightarrow> number \<Rightarrow> number" where
  "modulo_number (Fin n) (Fin d) = (if d = 0 then NaN else Fin (n - d * trunc (n / d)))"
| "modulo_number (Fin n) PosInf = Fin n"
| "modulo_number (Fin n) NegInf = Fin n"
| "modulo_number a b = NaN"

text \<open>Comparisons with \<open>NaN\<close> are false.\<close>

fun less_number :: "number \<Rightarrow> number \<Rightarrow> bool" where
  "less_number (Fin x) (Fin y) = (x < y)"
| "less_number NaN b = False"
| "less_number a NaN = False"
| "less_number PosInf b = False"
| "less_number a PosInf = True"
| "less_number a NegInf = False"
| "less_number NegInf b = True"

definition less_eq_number :: "number \<Rightarrow> number \<Rightarrow> bool" where
  "less_eq_number a b = (a \<noteq> NaN \<and> b \<noteq> NaN \<and> (a < b \<or> a = b))"

instance ..

end

text \<open>Strict equality \<^verbatim>\<open>===\<close> on numbers: \<open>NaN\<close> is not equal to itself.\<close>

definition strict_eq :: "number \<Rightarrow> number \<Rightarrow> bool" where
  "strict_eq a b = (a \<noteq> NaN \<and> a = b)"

definition is_Fin :: "number \<Rightarrow> bool" where
  "is_Fin a = (case a of Fin x \<Rightarrow> True | _ \<Rightarrow> False)"

definition fin_val :: "number \<Rightarrow> real" where
  "fin_val a = (case a of Fin x \<Rightarrow> x | _ \<Rightarrow> 0)"

subsection \<open>Rounding to binary64\<close>

text \<open>The integer nearest to a real, the even one of two.\<close>

definition round_half_even :: "real \<Rightarrow> int" where
  "round_half_even y =
     (let f = \<lfloor>y\<rfloor>; r = y - of_int f
      in if r < 1 / 2 then f else if 1 / 2 < r then f + 1 else if even f then f else f + 1)"

text \<open>
  The binary64 values around \<open>x\<close>, where \<open>2\<^sup>e \<le> \<bar>x\<bar> < 2\<^sup>e\<^sup>+\<^sup>1\<close>, are the multiples of
  \<open>2\<^sup>e\<^sup>-\<^sup>5\<^sup>2\<close>; below \<open>2\<^sup>-\<^sup>1\<^sup>0\<^sup>2\<^sup>2\<close> they are the multiples of \<open>2\<^sup>-\<^sup>1\<^sup>0\<^sup>7\<^sup>4\<close>. A real is
  rounded to the nearest of them, to the one with the even multiplier when there are two.
\<close>

definition binade :: "real \<Rightarrow> int" where
  "binade x = max \<lfloor>log 2 \<bar>x\<bar>\<rfloor> (- 1022)"

definition round64 :: "real \<Rightarrow> real" where
  "round64 x =
     (if x = 0 then 0
      else (let q = 2 powr of_int (binade x - 52) in q * of_int (round_half_even (x / q))))"

text \<open>The number that a real rounds to: from \<open>2\<^sup>1\<^sup>0\<^sup>2\<^sup>4\<close> on it is an infinity.\<close>

definition binary64 :: "real \<Rightarrow> number" where
  "binary64 x =
     (let y = round64 x
      in if 2 ^ 1024 \<le> \<bar>y\<bar> then (if y < 0 then NegInf else PosInf) else Fin y)"

text \<open>A number as binary64 has it.\<close>

definition r64 :: "number \<Rightarrow> number" where
  "r64 a = (case a of Fin x \<Rightarrow> binary64 x | _ \<Rightarrow> a)"

text \<open>The arithmetic operators with their results rounded to binary64.\<close>

fun times64 :: "number \<Rightarrow> number \<Rightarrow> number" where
  "times64 (Fin x) (Fin y) = binary64 (x * y)"
| "times64 NaN b = NaN"
| "times64 a NaN = NaN"
| "times64 a b = signed_inf (sign_of a * sign_of b)"

definition plus64 :: "number \<Rightarrow> number \<Rightarrow> number" where
  "plus64 a b = r64 (a + b)"

definition minus64 :: "number \<Rightarrow> number \<Rightarrow> number" where
  "minus64 a b = r64 (a - b)"

definition divide64 :: "number \<Rightarrow> number \<Rightarrow> number" where
  "divide64 a b = r64 (a / b)"

subsection \<open>The \<^verbatim>\<open>Math\<close> object\<close>

definition Math_PI :: number where
  "Math_PI = Fin pi"

fun Math_sin :: "number \<Rightarrow> number" where
  "Math_sin (Fin x) = Fin (sin x)"
| "Math_sin a = NaN"

fun Math_cos :: "number \<Rightarrow> number" where
  "Math_cos (Fin x) = Fin (cos x)"
| "Math_cos a = NaN"

fun Math_sqrt :: "number \<Rightarrow> number" where
  "Math_sqrt (Fin x) = (if x < 0 then NaN else Fin (sqrt x))"
| "Math_sqrt PosInf = PosInf"
| "Math_sqrt a = NaN"

text \<open>The angle of the point \<open>(x, y)\<close>, in \<open>(-\<pi>, \<pi>]\<close>.\<close>

definition atan2 :: "real \<Rightarrow> real \<Rightarrow> real" where
  "atan2 y x =
     (if 0 < x then arctan (y / x)
      else if x < 0 then (if 0 \<le> y then arctan (y / x) + pi else arctan (y / x) - pi)
      else if 0 < y then pi / 2
      else if y < 0 then - (pi / 2)
      else 0)"

fun Math_atan2 :: "number \<Rightarrow> number \<Rightarrow> number" where
  "Math_atan2 (Fin y) (Fin x) = Fin (atan2 y x)"
| "Math_atan2 NaN b = NaN"
| "Math_atan2 a NaN = NaN"
| "Math_atan2 (Fin y) PosInf = Fin 0"
| "Math_atan2 (Fin y) NegInf = (if 0 \<le> y then Fin pi else Fin (- pi))"
| "Math_atan2 PosInf (Fin x) = Fin (pi / 2)"
| "Math_atan2 NegInf (Fin x) = Fin (- (pi / 2))"
| "Math_atan2 PosInf PosInf = Fin (pi / 4)"
| "Math_atan2 PosInf NegInf = Fin (3 * pi / 4)"
| "Math_atan2 NegInf PosInf = Fin (- (pi / 4))"
| "Math_atan2 NegInf NegInf = Fin (- (3 * pi / 4))"

text \<open>\<^verbatim>\<open>Math.round\<close> rounds to the nearest integer, a tie towards \<open>+\<infinity>\<close>.\<close>

fun Math_round :: "number \<Rightarrow> number" where
  "Math_round (Fin x) = Fin (of_int \<lfloor>x + 1 / 2\<rfloor>)"
| "Math_round a = a"

text \<open>
  The same in binary64. \<^verbatim>\<open>Math.PI\<close> is the binary64 value nearest to \<open>\<pi>\<close>, and
  \<^verbatim>\<open>Math.sqrt\<close> rounds the exact root. For \<^verbatim>\<open>Math.sin\<close>,
  \<^verbatim>\<open>Math.cos\<close> and \<^verbatim>\<open>Math.atan2\<close> ECMAScript asks for an approximation that it
  leaves to the implementation: the sine and the cosine are passed as functions on the finite
  binary64 values, and \<open>atan2\<close> is taken as rounded from the exact value.
\<close>

definition Math_PI64 :: number where
  "Math_PI64 = Fin (884279719003555 / 2 ^ 48)"

definition Math_fun64 :: "(real \<Rightarrow> real) \<Rightarrow> number \<Rightarrow> number" where
  "Math_fun64 f a = (case a of Fin x \<Rightarrow> Fin (f x) | _ \<Rightarrow> NaN)"

definition Math_sqrt64 :: "number \<Rightarrow> number" where
  "Math_sqrt64 a = r64 (Math_sqrt a)"

definition Math_atan2_64 :: "number \<Rightarrow> number \<Rightarrow> number" where
  "Math_atan2_64 y x = r64 (Math_atan2 y x)"

section \<open>Strings\<close>

text \<open>
  A JavaScript string is a sequence of UTF-16 code units. The texts that come from outside
  (the stored coordinates) are lists of code units. The strings that the pipeline builds
  (decimal numerals, unit suffixes, compass points) are ASCII and are written as Isabelle
  strings; \<open>units\<close> gives their code units.
\<close>

type_synonym utf16 = "nat list"

definition cu :: "char \<Rightarrow> nat" where
  "cu c = of_char c"

definition units :: "string \<Rightarrow> utf16" where
  "units s = map cu s"

definition digit_char :: "nat \<Rightarrow> char" where
  "digit_char d = ''0123456789'' ! d"

text \<open>The decimal digits of a natural number, without leading zeros (\<open>0\<close> is ``0'').\<close>

fun nat_digits :: "nat \<Rightarrow> string" where
  "nat_digits n = (if n < 10 then [digit_char n] else nat_digits (n div 10) @ [digit_char (n mod 10)])"

declare nat_digits.simps [simp del]

subsection \<open>\<^verbatim>\<open>Number.prototype.toFixed\<close>\<close>

definition strip_zeros :: "string \<Rightarrow> string" where
  "strip_zeros ds = rev (dropWhile (\<lambda>c. c = CHR ''0'') (rev ds))"

text \<open>
  From \<open>10\<^sup>2\<^sup>1\<close> on, \<^verbatim>\<open>toFixed\<close> gives the exponential notation of
  \<^verbatim>\<open>Number.prototype.toString\<close>: the significant digits, a point after the first
  of them, and the decimal exponent. Every binary64 value of that size is an integer; the
  digits written here are those of that integer, where JavaScript writes the shortest digit
  string that reads back as the same binary64 value. The two agree on the numbers that have
  at most 17 significant digits, such as \<open>10\<^sup>2\<^sup>1\<close>. No distance of the pipeline is that
  large.
\<close>

definition toString_exponential :: "real \<Rightarrow> string" where
  "toString_exponential a =
     (let ds = nat_digits (nat \<lfloor>a\<rfloor>);
          s = strip_zeros ds;
          e = ''e+'' @ nat_digits (length ds - 1)
      in if length s = 1 then s @ e else take 1 s @ ''.'' @ drop 1 s @ e)"

text \<open>
  \<^verbatim>\<open>x.toFixed(f)\<close> takes the integer \<open>n\<close> for which \<open>n / 10\<^sup>f\<close> is nearest to
  \<open>\<bar>x\<bar>\<close> (the larger of two) and writes it with \<open>f\<close> digits after the point, zeros
  added in front when \<open>n\<close> has no more than \<open>f\<close> digits.
\<close>

definition fixed_digits :: "nat \<Rightarrow> nat \<Rightarrow> string" where
  "fixed_digits n f =
     (let m = nat_digits n
      in if f = 0 then m
         else
           (let m' = replicate (f + 1 - length m) (CHR ''0'') @ m;
                k = length m'
            in take (k - f) m' @ ''.'' @ drop (k - f) m'))"

definition toFixed :: "number \<Rightarrow> nat \<Rightarrow> string" where
  "toFixed x f =
     (case x of
        NaN \<Rightarrow> ''NaN''
      | PosInf \<Rightarrow> ''Infinity''
      | NegInf \<Rightarrow> ''-Infinity''
      | Fin r \<Rightarrow>
          (let s = (if r < 0 then ''-'' else []);
               a = \<bar>r\<bar>
           in if 10 ^ 21 \<le> a then s @ toString_exponential a
              else s @ fixed_digits (nat \<lfloor>a * 10 ^ f + 1 / 2\<rfloor>) f))"

subsection \<open>\<^verbatim>\<open>parseFloat\<close>\<close>

text \<open>
  The white space that \<^verbatim>\<open>parseFloat\<close> skips: the white space and the line terminators
  of ECMAScript (tab, line feed, vertical tab, form feed, carriage return, space, no-break
  space, the other space separators of Unicode, line and paragraph separator, and the byte
  order mark).
\<close>

definition is_space :: "nat \<Rightarrow> bool" where
  "is_space c =
     (c \<in> set [0x09, 0x0A, 0x0B, 0x0C, 0x0D, 0x20, 0xA0, 0x1680, 0x2000, 0x2001, 0x2002,
        0x2003, 0x2004, 0x2005, 0x2006, 0x2007, 0x2008, 0x2009, 0x200A, 0x2028, 0x2029,
        0x202F, 0x205F, 0x3000, 0xFEFF])"

definition is_digit :: "nat \<Rightarrow> bool" where
  "is_digit c = (cu (CHR ''0'') \<le> c \<and> c \<le> cu (CHR ''9''))"

definition digit_val :: "nat \<Rightarrow> nat" where
  "digit_val c = c - cu (CHR ''0'')"

definition digits_value :: "utf16 \<Rightarrow> nat" where
  "digits_value ds = foldl (\<lambda>a c. 10 * a + digit_val c) 0 ds"

text \<open>An optional sign in front of a string: the sign and the rest.\<close>

fun take_sign :: "utf16 \<Rightarrow> int \<times> utf16" where
  "take_sign [] = (1, [])"
| "take_sign (c # r) =
     (if c = cu (CHR ''-'') then (- 1, r) else if c = cu (CHR ''+'') then (1, r) else (1, c # r))"

text \<open>
  The exponent part at the front of a string: \<open>e\<close> or \<open>E\<close>, an optional sign and at least
  one digit; \<open>0\<close> when there is none.
\<close>

fun exponent_part :: "utf16 \<Rightarrow> int" where
  "exponent_part [] = 0"
| "exponent_part (c # r) =
     (if c = cu (CHR ''e'') \<or> c = cu (CHR ''E'') then
        (let (s, u) = take_sign r; ds = takeWhile is_digit u
         in if ds = [] then 0 else s * int (digits_value ds))
      else 0)"

text \<open>
  The number with the sign \<open>s\<close> and the magnitude \<open>v\<close> that a numeral denotes. The
  magnitude is kept as it is written, except that one which rounds to \<open>2\<^sup>1\<^sup>0\<^sup>2\<^sup>4\<close> or beyond
  gives an infinity and one which rounds to \<open>0\<close> gives \<open>0\<close>.
\<close>

definition numeral_value :: "int \<Rightarrow> real \<Rightarrow> number" where
  "numeral_value s v =
     (if 2 ^ 1024 - 2 ^ 970 \<le> v then (if s < 0 then NegInf else PosInf)
      else if v \<le> 1 / 2 ^ 1075 then Fin 0
      else Fin (of_int s * v))"

text \<open>
  \<^verbatim>\<open>parseFloat\<close> skips white space, then reads the longest prefix that is a decimal
  literal (a sign, then \<^verbatim>\<open>Infinity\<close> or digits with an optional fraction and exponent)
  and ignores what follows; without such a prefix the result is \<open>NaN\<close>.
\<close>

definition parseFloat :: "utf16 \<Rightarrow> number" where
  "parseFloat str =
     (let (s, u) = take_sign (dropWhile is_space str)
      in if take 8 u = units ''Infinity'' then (if s < 0 then NegInf else PosInf)
         else
           (let ip = takeWhile is_digit u;
                r1 = dropWhile is_digit u;
                dot = (r1 \<noteq> [] \<and> hd r1 = cu (CHR ''.''));
                fp = (if dot then takeWhile is_digit (tl r1) else []);
                r2 = (if dot then dropWhile is_digit (tl r1) else r1)
            in if ip = [] \<and> fp = [] then NaN
               else
                 (let m = real (digits_value ip) + real (digits_value fp) / 10 ^ length fp;
                      e = exponent_part r2
                  in numeral_value s (m * (if 0 \<le> e then 10 ^ nat e else 1 / 10 ^ nat (- e))))))"

text \<open>\<^verbatim>\<open>str.split(' ')[0]\<close>: the part of the string before its first space.\<close>

definition split_space_first :: "string \<Rightarrow> string" where
  "split_space_first str = takeWhile (\<lambda>c. c \<noteq> CHR '' '') str"

section \<open>Arrays\<close>

text \<open>
  \<^verbatim>\<open>xs[i]\<close> with a number \<open>i\<close>: the element when \<open>i\<close> is an integer index of the
  array, \<^verbatim>\<open>undefined\<close> (\<open>None\<close>) otherwise; no index raises.
\<close>

definition array_get :: "'a list \<Rightarrow> number \<Rightarrow> 'a option" where
  "array_get xs i =
     (case i of
        Fin r \<Rightarrow>
          (if r = of_int \<lfloor>r\<rfloor> \<and> 0 \<le> r \<and> r < real (length xs) then Some (xs ! nat \<lfloor>r\<rfloor>) else None)
      | _ \<Rightarrow> None)"

subsection \<open>\<^verbatim>\<open>Array.prototype.sort\<close>\<close>

text \<open>
  \<^verbatim>\<open>Array.prototype.sort\<close> with a comparison function, as V8 (Chrome, Node.js) carries
  it out on an array of fewer than 64 elements. The run at the front of the array is found:
  it is ascending, or strictly descending and then reversed. Every further element is put
  into the sorted front part at the place that a binary search finds. The result of a
  comparison is used only in the test \<^verbatim>\<open>order < 0\<close>, for which a \<open>NaN\<close> counts as
  \<open>+0\<close>.

  A longer array is sorted in several such runs, which are then merged. Whenever the
  comparison function is a consistent ordering the result is the same: the stable sort, as
  ECMAScript prescribes it. For a comparison function that is not a consistent ordering
  ECMAScript leaves the order to the implementation.
\<close>

fun run_length :: "('a \<Rightarrow> 'a \<Rightarrow> number) \<Rightarrow> bool \<Rightarrow> 'a \<Rightarrow> 'a list \<Rightarrow> nat" where
  "run_length cmp desc prev [] = 0"
| "run_length cmp desc prev (x # xs) =
     (if (cmp x prev < Fin 0) = desc then Suc (run_length cmp desc x xs) else 0)"

text \<open>The run at the front, made ascending, and the rest of the array.\<close>

definition count_and_make_run :: "('a \<Rightarrow> 'a \<Rightarrow> number) \<Rightarrow> 'a list \<Rightarrow> 'a list \<times> 'a list" where
  "count_and_make_run cmp xs =
     (case xs of
        x # y # zs \<Rightarrow>
          (let desc = (cmp y x < Fin 0);
               n = 2 + run_length cmp desc y zs
           in (if desc then rev (take n xs) else take n xs, drop n xs))
      | _ \<Rightarrow> (xs, []))"

function binary_search :: "('a \<Rightarrow> 'a \<Rightarrow> number) \<Rightarrow> 'a \<Rightarrow> 'a list \<Rightarrow> nat \<Rightarrow> nat \<Rightarrow> nat" where
  "binary_search cmp pivot ys left right =
     (if left < right then
        (let mid = left + (right - left) div 2
         in if cmp pivot (ys ! mid) < Fin 0 then binary_search cmp pivot ys left mid
            else binary_search cmp pivot ys (mid + 1) right)
      else left)"
  by pat_completeness auto

termination
  by (relation "measure (\<lambda>(cmp, pivot, ys, left, right). right - left)") auto

declare binary_search.simps [simp del]

definition binary_insert :: "('a \<Rightarrow> 'a \<Rightarrow> number) \<Rightarrow> 'a list \<Rightarrow> 'a \<Rightarrow> 'a list" where
  "binary_insert cmp ys pivot =
     (let i = binary_search cmp pivot ys 0 (length ys) in take i ys @ pivot # drop i ys)"

definition array_sort :: "('a \<Rightarrow> 'a \<Rightarrow> number) \<Rightarrow> 'a list \<Rightarrow> 'a list" where
  "array_sort cmp xs =
     (let (run, rest) = count_and_make_run cmp xs in foldl (binary_insert cmp) run rest)"

section \<open>The store locator\<close>

text \<open>
  A store record holds its coordinates as text. The code reads them as
  \<^verbatim>\<open>store.latitude || '0'\<close>, so a coordinate may be absent (\<open>None\<close>) or empty at run
  time. The fields the locator does not read (phone, description, owner, rating, ...) are
  carried along in \<open>details\<close>.
\<close>

record 'd Store =
  ident :: int
  name :: string
  address :: string
  latitude :: "utf16 option"
  longitude :: "utf16 option"
  details :: 'd

record LatLng =
  lat :: number
  lng :: number

text \<open>The user's location; the component state holds \<open>None\<close> until it is acquired.\<close>

record UserLocation = LatLng +
  googleMapsLink :: "string option"
  coordinates :: "string option"

text \<open>An element of the result: the store's fields, its parsed location, the display string.\<close>

record 'd NearbyStore =
  store :: "'d Store"
  storeLocation :: LatLng
  distance :: string

subsection \<open>\<^verbatim>\<open>calculateDistance\<close>: the Haversine formula\<close>

definition calculateDistance :: "number \<Rightarrow> number \<Rightarrow> number \<Rightarrow> number \<Rightarrow> number" where
  "calculateDistance lat1 lon1 lat2 lon2 =
     (let R = Fin 6371;
          dLat = (lat2 - lat1) * Math_PI / Fin 180;
          dLon = (lon2 - lon1) * Math_PI / Fin 180;
          a = Math_sin (dLat / Fin 2) * Math_sin (dLat / Fin 2) +
              Math_cos (lat1 * Math_PI / Fin 180) * Math_cos (lat2 * Math_PI / Fin 180) *
              Math_sin (dLon / Fin 2) * Math_sin (dLon / Fin 2);
          c = Fin 2 * Math_atan2 (Math_sqrt a) (Math_sqrt (Fin 1 - a))
      in R * c)"

text \<open>
  The same function with every operation rounded to binary64, for the sine \<open>sin64\<close> and
  the cosine \<open>cos64\<close> of the implementation.
\<close>

definition calculateDistance_binary64 ::
  "(real \<Rightarrow> real) \<Rightarrow> (real \<Rightarrow> real) \<Rightarrow> number \<Rightarrow> number \<Rightarrow> number \<Rightarrow> number \<Rightarrow> number" where
  "calculateDistance_binary64 sin64 cos64 lat1 lon1 lat2 lon2 =
     (let R = Fin 6371;
          dLat = divide64 (times64 (minus64 lat2 lat1) Math_PI64) (Fin 180);
          dLon = divide64 (times64 (minus64 lon2 lon1) Math_PI64) (Fin 180);
          a = plus64
                (times64 (Math_fun64 sin64 (divide64 dLat (Fin 2)))
                   (Math_fun64 sin64 (divide64 dLat (Fin 2))))
                (times64
                   (times64
                      (times64 (Math_fun64 cos64 (divide64 (times64 lat1 Math_PI64) (Fin 180)))
                         (Math_fun64 cos64 (divide64 (times64 lat2 Math_PI64) (Fin 180))))
                      (Math_fun64 sin64 (divide64 dLon (Fin 2))))
                   (Math_fun64 sin64 (divide64 dLon (Fin 2))));
          c = times64 (Fin 2) (Math_atan2_64 (Math_sqrt64 a) (Math_sqrt64 (minus64 (Fin 1) a)))
      in times64 R c)"

subsection \<open>\<^verbatim>\<open>calculateDirection\<close>: the bearing, as a compass point\<close>

definition directions :: "string list" where
  "directions = [''N'', ''NE'', ''E'', ''SE'', ''S'', ''SW'', ''W'', ''NW'']"

definition bearing :: "number \<Rightarrow> number \<Rightarrow> number \<Rightarrow> number \<Rightarrow> number" where
  "bearing lat1 lon1 lat2 lon2 =
     (let dLon = (lon2 - lon1) * Math_PI / Fin 180;
          y = Math_sin dLon * Math_cos (lat2 * Math_PI / Fin 180);
          x = Math_cos (lat1 * Math_PI / Fin 180) * Math_sin (lat2 * Math_PI / Fin 180) -
              Math_sin (lat1 * Math_PI / Fin 180) * Math_cos (lat2 * Math_PI / Fin 180) * Math_cos dLon
      in Math_atan2 y x * Fin 180 / Math_PI)"

definition direction_index :: "number \<Rightarrow> number \<Rightarrow> number \<Rightarrow> number \<Rightarrow> number" where
  "direction_index lat1 lon1 lat2 lon2 = Math_round (bearing lat1 lon1 lat2 lon2 / Fin 45) mod Fin 8"

text \<open>The result is \<^verbatim>\<open>undefined\<close> (\<open>None\<close>) when the index is not one of the array.\<close>

definition calculateDirection :: "number \<Rightarrow> number \<Rightarrow> number \<Rightarrow> number \<Rightarrow> string option" where
  "calculateDirection lat1 lon1 lat2 lon2 = array_get directions (direction_index lat1 lon1 lat2 lon2)"

subsection \<open>\<^verbatim>\<open>formatDistance\<close>\<close>

text \<open>
  The digits that \<^verbatim>\<open>toFixed\<close> writes are those of the binary64 value it is applied
  to, so the product \<^verbatim>\<open>distance * 1000\<close> is taken as binary64 has it, rounded.
\<close>

definition formatDistance :: "number \<Rightarrow> string" where
  "formatDistance d =
     (if d \<ge> Fin 1 then toFixed d 1 @ ''km'' else toFixed (times64 d (Fin 1000)) 0 @ ''m'')"

subsection \<open>\<^verbatim>\<open>getNearbyStores\<close>\<close>

text \<open>A template literal writes \<^verbatim>\<open>undefined\<close> by its name.\<close>

definition template_string :: "string option \<Rightarrow> string" where
  "template_string v = (case v of None \<Rightarrow> ''undefined'' | Some s \<Rightarrow> s)"

text \<open>\<^verbatim>\<open>text || '0'\<close>: an absent or empty text gives the default.\<close>

definition or_zero :: "utf16 option \<Rightarrow> utf16" where
  "or_zero t = (case t of None \<Rightarrow> units ''0'' | Some s \<Rightarrow> if s = [] then units ''0'' else s)"

text \<open>The function mapped over the stores.\<close>

definition nearby_entry :: "UserLocation \<Rightarrow> 'd Store \<Rightarrow> 'd NearbyStore" where
  "nearby_entry userLocation st =
     (let storeLoc = \<lparr>lat = parseFloat (or_zero (latitude st)),
                       lng = parseFloat (or_zero (longitude st))\<rparr>;
          dist = calculateDistance (lat userLocation) (lng userLocation) (lat storeLoc) (lng storeLoc);
          direction = calculateDirection (lat userLocation) (lng userLocation) (lat storeLoc) (lng storeLoc)
      in \<lparr>store = st, storeLocation = storeLoc,
          distance = formatDistance dist @ '' ('' @ template_string direction @ '')''\<rparr>)"

text \<open>The comparison function of the sort: the difference of the numbers read back from
  the front of the two display strings.\<close>

definition compare_entries :: "'d NearbyStore \<Rightarrow> 'd NearbyStore \<Rightarrow> number" where
  "compare_entries a b =
     (let aDist = parseFloat (units (split_space_first (distance a)));
          bDist = parseFloat (units (split_space_first (distance b)))
      in aDist - bDist)"

definition getNearbyStores :: "UserLocation option \<Rightarrow> 'd Store list \<Rightarrow> 'd NearbyStore list" where
  "getNearbyStores userLocation stores =
     (case userLocation of
        None \<Rightarrow> []
      | Some loc \<Rightarrow> array_sort compare_entries (map (nearby_entry loc) stores))"

text \<open>The distance of a result entry from the user, as the pipeline computed it.\<close>

definition distance_to :: "UserLocation \<Rightarrow> 'd NearbyStore \<Rightarrow> number" where
  "distance_to loc e =
     calculateDistance (lat loc) (lng loc) (lat (storeLocation e)) (lng (storeLocation e))"

text \<open>The sort key of an entry: \<^verbatim>\<open>aDist\<close>, \<^verbatim>\<open>bDist\<close> in the comparison function.\<close>

definition dist_key :: "'d NearbyStore \<Rightarrow> number" where
  "dist_key e = parseFloat (units (split_space_first (distance e)))"

subsection \<open>Auxiliary notions\<close>

text \<open>The value of \<open>a\<close> in \<^verbatim>\<open>calculateDistance\<close> on finite coordinates.\<close>

definition hav :: "real \<Rightarrow> real \<Rightarrow> real \<Rightarrow> real \<Rightarrow> real" where
  "hav lat1 lon1 lat2 lon2 =
     sin ((lat2 - lat1) * pi / 180 / 2) * sin ((lat2 - lat1) * pi / 180 / 2) +
     cos (lat1 * pi / 180) * cos (lat2 * pi / 180) *
     sin ((lon2 - lon1) * pi / 180 / 2) * sin ((lon2 - lon1) * pi / 180 / 2)"

text \<open>
  The valid points of the specification's data model: a latitude in \<open>[-90, 90]\<close> and a
  longitude in \<open>[-180, 180]\<close>, in decimal degrees.
\<close>

definition valid_GeoPoint :: "number \<Rightarrow> number \<Rightarrow> bool" where
  "valid_GeoPoint la lo = (Fin (- 90) \<le> la \<and> la \<le> Fin 90 \<and> Fin (- 180) \<le> lo \<and> lo \<le> Fin 180)"

text \<open>
  Binary64 values that occur between the points \<open>(12, 0)\<close> and \<open>(-12, 180)\<close>: the
  angle of 12 degrees in radians as the code computes it (\<open>0.20943951023931953\<close>), half of
  \<^verbatim>\<open>Math.PI\<close> (\<open>1.5707963267948966\<close>), and the sine and the cosine of the former as V8
  and the C library return them (\<open>0.20791169081775931\<close> and \<open>0.9781476007338057\<close>).
\<close>

definition angle12 :: real where
  "angle12 = 7545853602163669 / 2 ^ 55"

definition half_pi64 :: real where
  "half_pi64 = 884279719003555 / 2 ^ 49"

definition sin12 :: real where
  "sin12 = 7490808106342645 / 2 ^ 55"

definition cos12 :: real where
  "cos12 = 68831018284033 / 2 ^ 46"

text \<open>
  A sine and a cosine that have the values of V8 at these arguments; the sine of half of
  \<^verbatim>\<open>Math.PI\<close> is \<open>1\<close> there.
\<close>

definition v8_values :: "(real \<Rightarrow> real) \<Rightarrow> (real \<Rightarrow> real) \<Rightarrow> bool" where
  "v8_values sin64 cos64 =
     (sin64 angle12 = sin12 \<and> sin64 (- angle12) = - sin12 \<and>
      sin64 half_pi64 = 1 \<and> sin64 (- half_pi64) = - 1 \<and>
      cos64 angle12 = cos12 \<and> cos64 (- angle12) = cos12)"

text \<open>
  The correctly rounded sine and cosine, the binary64 number nearest to the exact value:
  functions of this kind.
\<close>

definition sin_rounded :: "real \<Rightarrow> real" where
  "sin_rounded x = round64 (sin x)"

definition cos_rounded :: "real \<Rightarrow> real" where
  "cos_rounded x = round64 (cos x)"

text \<open>The Taylor polynomials of degree 15 and 14, to bound the sine and the cosine.\<close>

definition sin_poly :: "real \<Rightarrow> real" where
  "sin_poly x = x - x^3/6 + x^5/120 - x^7/5040 + x^9/362880 - x^11/39916800 +
     x^13/6227020800 - x^15/1307674368000"

definition cos_poly :: "real \<Rightarrow> real" where
  "cos_poly x = 1 - x^2/2 + x^4/24 - x^6/720 + x^8/40320 - x^10/3628800 +
     x^12/479001600 - x^14/87178291200"

text \<open>Sample inputs: a user at \<open>(0, 0)\<close> and stores on the equator.\<close>

definition equator_user :: UserLocation where
  "equator_user = \<lparr>lat = Fin 0, lng = Fin 0, googleMapsLink = None, coordinates = None\<rparr>"

definition equator_store :: "int \<Rightarrow> string \<Rightarrow> unit Store" where
  "equator_store i lon =
     \<lparr>ident = i, name = ''Store'', address = ''Equator'', latitude = Some (units ''0''),
      longitude = Some (units lon), details = ()\<rparr>"

text \<open>A store whose latitude text is not a numeral.\<close>

definition unknown_store :: "int \<Rightarrow> unit Store" where
  "unknown_store i =
     \<lparr>ident = i, name = ''Store'', address = ''Siraha'', latitude = Some (units ''unknown''),
      longitude = Some (units ''0''), details = ()\<rparr>"

text \<open>
  Seven stores, two of them without a latitude that is a numeral, the last two at one and
  the same place.
\<close>

definition unstable_stores :: "unit Store list" where
  "unstable_stores =
     [unknown_store 1, equator_store 2 ''0.005'', equator_store 3 ''0.02'', unknown_store 4,
      equator_store 5 ''0.02'', equator_store 6 ''0.001'', equator_store 7 ''0.001'']"

text \<open>
  A text that starts with a numeral: after white space and an optional sign comes
  \<^verbatim>\<open>Infinity\<close>, a digit, or a point and a digit.
\<close>

definition starts_numeral :: "utf16 \<Rightarrow> bool" where
  "starts_numeral t =
     (let u = snd (take_sign (dropWhile is_space t))
      in take 8 u = units ''Infinity'' \<or>
         (case u of
            [] \<Rightarrow> False
          | c # r \<Rightarrow>
              is_digit c \<or>
              (c = cu (CHR ''.'') \<and> (case r of [] \<Rightarrow> False | d # r' \<Rightarrow> is_digit d))))"

text \<open>
  The specification's words for \<^verbatim>\<open>formatDistance\<close>. A non-negative value ``with
  exactly one decimal place'': the nearest number of tenths \<open>n\<close> (a tie upwards), written
  as the integer \<open>n div 10\<close>, a point and the digit \<open>n mod 10\<close>. A value ``rounded to
  the nearest integer'': the sign, and the integer nearest to the absolute value.
\<close>

definition one_decimal :: "real \<Rightarrow> string" where
  "one_decimal r =
     (let n = nat \<lfloor>r * 10 + 1 / 2\<rfloor>
      in nat_digits (n div 10) @ ''.'' @ [digit_char (n mod 10)])"

definition nearest_integer :: "real \<Rightarrow> string" where
  "nearest_integer x = (if x < 0 then ''-'' else []) @ nat_digits (nat \<lfloor>\<bar>x\<bar> + 1 / 2\<rfloor>)"

section \<open>The sort\<close>

lemma mset_binary_insert: "mset (binary_insert cmp ys p) = add_mset p (mset ys)"
proof -
  have "mset (take i ys) + mset (drop i ys) = mset ys" for i
    by (metis append_take_drop_id mset_append)
  then show ?thesis
    by (simp add: binary_insert_def Let_def)
qed

lemma mset_foldl_binary_insert:
  "mset (foldl (binary_insert cmp) ys rest) = mset ys + mset rest"
  by (induction rest arbitrary: ys) (simp_all add: mset_binary_insert)

lemma mset_count_and_make_run:
  "mset (fst (count_and_make_run cmp xs)) + mset (snd (count_and_make_run cmp xs)) = mset xs"
proof -
  have td: "mset (take n xs) + mset (drop n xs) = mset xs" for n
    by (metis append_take_drop_id mset_append)
  show ?thesis
  proof (cases xs)
    case Nil
    then show ?thesis by (simp add: count_and_make_run_def)
  next
    case (Cons x ys)
    show ?thesis
    proof (cases ys)
      case Nil
      with Cons show ?thesis by (simp add: count_and_make_run_def)
    next
      case (Cons y zs)
      have "count_and_make_run cmp xs =
          (let desc = (cmp y x < Fin 0); n = 2 + run_length cmp desc y zs
           in (if desc then rev (take n xs) else take n xs, drop n xs))"
        unfolding count_and_make_run_def \<open>xs = x # ys\<close> Cons by simp
      then show ?thesis
        using td by (simp add: Let_def)
    qed
  qed
qed

lemma mset_array_sort: "mset (array_sort cmp xs) = mset xs"
  using mset_count_and_make_run [of cmp xs]
  by (simp add: array_sort_def split_beta mset_foldl_binary_insert)

lemma set_array_sort: "set (array_sort cmp xs) = set xs"
  using mset_array_sort [of cmp xs] by (metis set_mset_mset)

lemma binary_search_correct:
  assumes srt: "sorted (map k ys)"
    and cons: "\<forall>y\<in>set ys. (cmp p y < Fin 0) = (k p < k y)"
  shows "left \<le> right \<Longrightarrow> right \<le> length ys \<Longrightarrow>
    (\<forall>j<left. k (ys ! j) \<le> k p) \<Longrightarrow>
    (\<forall>j. right \<le> j \<and> j < length ys \<longrightarrow> k p < k (ys ! j)) \<Longrightarrow>
    binary_search cmp p ys left right \<le> length ys \<and>
    (\<forall>j<binary_search cmp p ys left right. k (ys ! j) \<le> k p) \<and>
    (\<forall>j. binary_search cmp p ys left right \<le> j \<and> j < length ys \<longrightarrow> k p < k (ys ! j))"
  using srt cons
proof (induction cmp p ys left right rule: binary_search.induct)
  case (1 cmp p ys left right)
  note lr = "1.prems"(1) and rl = "1.prems"(2) and lo = "1.prems"(3) and hi = "1.prems"(4)
    and srt = "1.prems"(5) and cons = "1.prems"(6)
  have mono: "k (ys ! i) \<le> k (ys ! j)" if "i \<le> j" "j < length ys" for i j
    using sorted_nth_mono [OF srt, of i j] that by simp
  show ?case
  proof (cases "left < right")
    case False
    with lr have "left = right" by simp
    moreover have "binary_search cmp p ys left right = left"
      using False by (subst binary_search.simps) simp
    ultimately show ?thesis using rl lo hi by simp
  next
    case True
    define mid where "mid = left + (right - left) div 2"
    have m: "left \<le> mid" "mid < right" using True by (simp_all add: mid_def)
    then have ml: "mid < length ys" using rl by simp
    then have mem: "ys ! mid \<in> set ys" by simp
    show ?thesis
    proof (cases "cmp p (ys ! mid) < Fin 0")
      case lt: True
      have eq: "binary_search cmp p ys left right = binary_search cmp p ys left mid"
        using True lt by (subst binary_search.simps) (simp add: mid_def Let_def)
      have kp: "k p < k (ys ! mid)" using cons mem lt by simp
      have hi': "\<forall>j. mid \<le> j \<and> j < length ys \<longrightarrow> k p < k (ys ! j)"
        using kp mono by (meson less_le_trans)
      have ml': "mid \<le> length ys" using ml by simp
      show ?thesis
        unfolding eq by (rule "1.IH"(1) [OF True mid_def lt m(1) ml' lo hi' srt cons])
    next
      case ge: False
      have eq: "binary_search cmp p ys left right = binary_search cmp p ys (mid + 1) right"
        using True ge by (subst binary_search.simps) (simp add: mid_def Let_def)
      have kp: "k (ys ! mid) \<le> k p" using cons mem ge by simp
      have lo': "\<forall>j<mid + 1. k (ys ! j) \<le> k p"
      proof (intro allI impI)
        fix j assume "j < mid + 1"
        then have "j \<le> mid" by simp
        from mono [OF this ml] kp show "k (ys ! j) \<le> k p" by simp
      qed
      have mr: "mid + 1 \<le> right" using m by simp
      show ?thesis
        unfolding eq by (rule "1.IH"(2) [OF True mid_def ge mr rl lo' hi srt cons])
    qed
  qed
qed

text \<open>The place found for the pivot: behind the elements that are not larger.\<close>

lemma binary_insert_keyed:
  assumes srt: "sorted (map k ys)"
    and cons: "\<forall>y\<in>set ys. (cmp p y < Fin 0) = (k p < k y)"
  shows "sorted (map k (binary_insert cmp ys p))"
    and "filter (\<lambda>x. k x = v) (binary_insert cmp ys p) = filter (\<lambda>x. k x = v) (ys @ [p])"
proof -
  define i where "i = binary_search cmp p ys 0 (length ys)"
  have bs: "i \<le> length ys" "\<forall>j<i. k (ys ! j) \<le> k p"
      "\<forall>j. i \<le> j \<and> j < length ys \<longrightarrow> k p < k (ys ! j)"
  proof -
    have "\<forall>j. length ys \<le> j \<and> j < length ys \<longrightarrow> k p < k (ys ! j)" using leD by blast
    from binary_search_correct [of k ys cmp p 0 "length ys", OF srt cons _ _ _ this]
    show "i \<le> length ys" "\<forall>j<i. k (ys ! j) \<le> k p"
      "\<forall>j. i \<le> j \<and> j < length ys \<longrightarrow> k p < k (ys ! j)"
      by (simp_all add: i_def)
  qed
  have front: "k x \<le> k p" if "x \<in> set (take i ys)" for x
  proof -
    from that obtain j where "j < length (take i ys)" "x = take i ys ! j"
      by (auto simp: in_set_conv_nth)
    with bs show ?thesis by simp
  qed
  have behind: "k p < k x" if "x \<in> set (drop i ys)" for x
  proof -
    from that obtain j where j: "j < length (drop i ys)" "x = drop i ys ! j"
      by (auto simp: in_set_conv_nth)
    then have "x = ys ! (i + j)" "i + j < length ys" using bs(1) by simp_all
    with bs(3) show ?thesis by simp
  qed
  have ins: "binary_insert cmp ys p = take i ys @ p # drop i ys"
    by (simp add: binary_insert_def i_def Let_def)
  have st: "sorted (map k (take i ys))" "sorted (map k (drop i ys))"
    using srt by (simp_all add: sorted_wrt_take sorted_wrt_drop sorted_map)
  show "sorted (map k (binary_insert cmp ys p))"
    unfolding ins using st front behind by (fastforce simp: sorted_append)
  have none: "filter (\<lambda>x. k x = k p) (drop i ys) = []"
    using behind by (force simp: filter_empty_conv)
  have "filter (\<lambda>x. k x = v) ys = filter (\<lambda>x. k x = v) (take i ys) @ filter (\<lambda>x. k x = v) (drop i ys)"
    by (metis append_take_drop_id filter_append)
  then show "filter (\<lambda>x. k x = v) (binary_insert cmp ys p) = filter (\<lambda>x. k x = v) (ys @ [p])"
    unfolding ins using none by (cases "k p = v") auto
qed

lemma set_binary_insert: "set (binary_insert cmp ys p) = insert p (set ys)"
  using mset_binary_insert [of cmp ys p] by (metis set_mset_add_mset_insert set_mset_mset)

lemma foldl_binary_insert_keyed:
  assumes "sorted (map k ys)"
    and "\<forall>x\<in>set rest. \<forall>y\<in>set ys \<union> set rest. (cmp x y < Fin 0) = (k x < k y)"
  shows "sorted (map k (foldl (binary_insert cmp) ys rest)) \<and>
    filter (\<lambda>x. k x = v) (foldl (binary_insert cmp) ys rest) = filter (\<lambda>x. k x = v) (ys @ rest)"
  using assms
proof (induction rest arbitrary: ys)
  case Nil
  then show ?case by simp
next
  case (Cons p rest)
  have cons: "\<forall>y\<in>set ys. (cmp p y < Fin 0) = (k p < k y)"
    using Cons.prems(2) by simp
  note bi = binary_insert_keyed [of k ys cmp p, OF Cons.prems(1) cons]
  have "\<forall>x\<in>set rest. \<forall>y\<in>set (binary_insert cmp ys p) \<union> set rest. (cmp x y < Fin 0) = (k x < k y)"
    using Cons.prems(2) by (auto simp: set_binary_insert)
  from Cons.IH [OF bi(1) this] show ?case
    by (simp add: bi(2) [of v])
qed

lemma run_ascending:
  fixes k :: "'a \<Rightarrow> real"
  assumes "\<forall>x\<in>set (prev # zs). \<forall>y\<in>set (prev # zs). (cmp x y < Fin 0) = (k x < k y)"
  shows "sorted (map k (prev # take (run_length cmp False prev zs) zs))"
  using assms
proof (induction zs arbitrary: prev)
  case Nil
  then show ?case by simp
next
  case (Cons z zs)
  show ?case
  proof (cases "cmp z prev < Fin 0")
    case True
    then show ?thesis by simp
  next
    case False
    with Cons.prems have le: "k prev \<le> k z" by (simp add: not_less)
    have "\<forall>x\<in>set (z # zs). \<forall>y\<in>set (z # zs). (cmp x y < Fin 0) = (k x < k y)"
      using Cons.prems by simp
    from Cons.IH [OF this] have "sorted (map k (z # take (run_length cmp False z zs) zs))" .
    with le False show ?thesis by auto
  qed
qed

lemma run_descending:
  fixes k :: "'a \<Rightarrow> real"
  assumes "\<forall>x\<in>set (prev # zs). \<forall>y\<in>set (prev # zs). (cmp x y < Fin 0) = (k x < k y)"
  shows "sorted_wrt (\<lambda>a b. k b < k a) (prev # take (run_length cmp True prev zs) zs)"
  using assms
proof (induction zs arbitrary: prev)
  case Nil
  then show ?case by simp
next
  case (Cons z zs)
  show ?case
  proof (cases "cmp z prev < Fin 0")
    case False
    then show ?thesis by simp
  next
    case True
    with Cons.prems have lt: "k z < k prev" by simp
    have "\<forall>x\<in>set (z # zs). \<forall>y\<in>set (z # zs). (cmp x y < Fin 0) = (k x < k y)"
      using Cons.prems by simp
    from Cons.IH [OF this]
    have "sorted_wrt (\<lambda>a b. k b < k a) (z # take (run_length cmp True z zs) zs)" .
    with lt True show ?thesis by auto
  qed
qed

lemma filter_rev_descending:
  "sorted_wrt (\<lambda>a b. k b < k a) xs \<Longrightarrow>
   filter (\<lambda>x. k x = v) (rev xs) = filter (\<lambda>x. k x = v) xs" for k :: "'a \<Rightarrow> real"
proof (induction xs)
  case Nil
  then show ?case by simp
next
  case (Cons a xs)
  then have ih: "filter (\<lambda>x. k x = v) (rev xs) = filter (\<lambda>x. k x = v) xs"
    and below: "\<forall>b\<in>set xs. k b < k a"
    by simp_all
  show ?case
  proof (cases "k a = v")
    case True
    with below have "filter (\<lambda>x. k x = v) xs = []"
      by (force simp: filter_empty_conv)
    with True ih show ?thesis by simp
  next
    case False
    with ih show ?thesis by simp
  qed
qed

lemma sorted_rev_descending:
  "sorted_wrt (\<lambda>a b. k b < k a) xs \<Longrightarrow> sorted (map k (rev xs))" for k :: "'a \<Rightarrow> real"
proof -
  assume "sorted_wrt (\<lambda>a b. k b < k a) xs"
  then have "sorted_wrt (\<lambda>a b. k a < k b) (rev xs)"
    by (simp add: sorted_wrt_rev)
  then have "sorted_wrt (\<lambda>a b. k a \<le> k b) (rev xs)"
    by (rule sorted_wrt_mono_rel [rotated]) simp
  then show ?thesis
    by (simp add: sorted_map)
qed

lemma count_and_make_run_keyed:
  fixes k :: "'a \<Rightarrow> real"
  assumes cons: "\<forall>x\<in>set xs. \<forall>y\<in>set xs. (cmp x y < Fin 0) = (k x < k y)"
  shows "sorted (map k (fst (count_and_make_run cmp xs)))"
    and "filter (\<lambda>x. k x = v) (fst (count_and_make_run cmp xs) @ snd (count_and_make_run cmp xs)) =
      filter (\<lambda>x. k x = v) xs"
proof -
  have both: "sorted (map k (fst (count_and_make_run cmp xs))) \<and>
      filter (\<lambda>x. k x = v) (fst (count_and_make_run cmp xs) @ snd (count_and_make_run cmp xs)) =
      filter (\<lambda>x. k x = v) xs"
  proof (cases xs)
    case Nil
    then show ?thesis by (simp add: count_and_make_run_def)
  next
    case (Cons x ys)
    note xs = Cons
    show ?thesis
    proof (cases ys)
      case Nil
      with xs show ?thesis by (simp add: count_and_make_run_def)
    next
      case (Cons y zs)
      define desc where "desc = (cmp y x < Fin 0)"
      define n where "n = 2 + run_length cmp desc y zs"
      have car: "count_and_make_run cmp xs = (if desc then rev (take n xs) else take n xs, drop n xs)"
        unfolding count_and_make_run_def xs Cons desc_def n_def by (simp add: Let_def)
      have tk: "take n xs = x # y # take (run_length cmp desc y zs) zs"
        by (simp add: n_def xs Cons)
      have consyz: "\<forall>a\<in>set (y # zs). \<forall>b\<in>set (y # zs). (cmp a b < Fin 0) = (k a < k b)"
        using cons by (simp add: xs Cons)
      have yx: "(cmp y x < Fin 0) = (k y < k x)"
        using cons by (simp add: xs Cons)
      have split: "filter (\<lambda>x. k x = v) xs = filter (\<lambda>x. k x = v) (take n xs) @ filter (\<lambda>x. k x = v) (drop n xs)"
        by (metis append_take_drop_id filter_append)
      show ?thesis
      proof (cases desc)
        case False
        with yx have "k x \<le> k y" by (simp add: desc_def)
        moreover have "sorted (map k (y # take (run_length cmp False y zs) zs))"
          using consyz by (rule run_ascending)
        ultimately have "sorted (map k (take n xs))"
          unfolding tk using False by auto
        with False split show ?thesis
          by (simp add: car)
      next
        case True
        with yx have "k y < k x" by (simp add: desc_def)
        moreover have "sorted_wrt (\<lambda>a b. k b < k a) (y # take (run_length cmp True y zs) zs)"
          using consyz by (rule run_descending)
        ultimately have d: "sorted_wrt (\<lambda>a b. k b < k a) (take n xs)"
          unfolding tk using True by auto
        from True split sorted_rev_descending [OF d] filter_rev_descending [OF d, of v]
        show ?thesis
          by (simp add: car)
      qed
    qed
  qed
  from both show "sorted (map k (fst (count_and_make_run cmp xs)))" by simp
  from both show "filter (\<lambda>x. k x = v) (fst (count_and_make_run cmp xs) @ snd (count_and_make_run cmp xs)) =
      filter (\<lambda>x. k x = v) xs" by simp
qed

lemma set_count_and_make_run:
  "set (fst (count_and_make_run cmp xs)) \<union> set (snd (count_and_make_run cmp xs)) = set xs"
  using mset_count_and_make_run [of cmp xs]
  by (metis set_mset_mset set_mset_union)

text \<open>
  When the comparison function orders the elements by a key, the result is sorted by the
  key, and the elements of one key keep their order: the sort is the stable sort.
\<close>

lemma array_sort_keyed:
  fixes k :: "'a \<Rightarrow> real"
  assumes cons: "\<forall>x\<in>set xs. \<forall>y\<in>set xs. (cmp x y < Fin 0) = (k x < k y)"
  shows "sorted (map k (array_sort cmp xs))"
    and "filter (\<lambda>x. k x = v) (array_sort cmp xs) = filter (\<lambda>x. k x = v) xs"
proof -
  define run where "run = fst (count_and_make_run cmp xs)"
  define rest where "rest = snd (count_and_make_run cmp xs)"
  have sets: "set run \<union> set rest = set xs"
    unfolding run_def rest_def by (rule set_count_and_make_run)
  have srt: "sorted (map k run)"
    unfolding run_def using cons by (rule count_and_make_run_keyed)
  have flt: "filter (\<lambda>x. k x = v) (run @ rest) = filter (\<lambda>x. k x = v) xs"
    unfolding run_def rest_def using cons by (rule count_and_make_run_keyed)
  have "\<forall>x\<in>set rest. \<forall>y\<in>set run \<union> set rest. (cmp x y < Fin 0) = (k x < k y)"
    using cons sets by blast
  from foldl_binary_insert_keyed [OF srt this, of v]
  have "sorted (map k (foldl (binary_insert cmp) run rest)) \<and>
      filter (\<lambda>x. k x = v) (foldl (binary_insert cmp) run rest) = filter (\<lambda>x. k x = v) xs"
    by (simp only: flt)
  moreover have "array_sort cmp xs = foldl (binary_insert cmp) run rest"
    by (simp add: array_sort_def run_def rest_def split_beta)
  ultimately show "sorted (map k (array_sort cmp xs))"
    and "filter (\<lambda>x. k x = v) (array_sort cmp xs) = filter (\<lambda>x. k x = v) xs"
    by simp_all
qed

text \<open>It is the sort that the library defines.\<close>

lemma array_sort_sort_key:
  fixes k :: "'a \<Rightarrow> real"
  assumes cons: "\<forall>x\<in>set xs. \<forall>y\<in>set xs. (cmp x y < Fin 0) = (k x < k y)"
  shows "array_sort cmp xs = sort_key k xs"
proof (rule properties_for_sort_key [symmetric])
  show "mset (array_sort cmp xs) = mset xs" by (rule mset_array_sort)
  show "sorted (map k (array_sort cmp xs))" using cons by (rule array_sort_keyed)
  fix a
  show "filter (\<lambda>x. k a = k x) (array_sort cmp xs) = filter (\<lambda>x. k a = k x) xs"
    using array_sort_keyed(2) [OF cons, of "k a"] by (simp add: eq_commute)
qed

section \<open>Rounding\<close>

lemma round_half_even_close: "\<bar>of_int (round_half_even y) - y\<bar> \<le> 1 / 2"
proof -
  define f where "f = \<lfloor>y\<rfloor>"
  define r where "r = y - of_int f"
  have fr: "0 \<le> r" "r < 1" unfolding r_def f_def by linarith+
  have y: "y = of_int f + r" by (simp add: r_def)
  have "round_half_even y = f \<and> r \<le> 1 / 2 \<or> round_half_even y = f + 1 \<and> 1 / 2 \<le> r"
    unfolding round_half_even_def Let_def f_def [symmetric] r_def [symmetric] by auto
  then show ?thesis
  proof
    assume "round_half_even y = f \<and> r \<le> 1 / 2"
    then show ?thesis using fr by (simp add: y)
  next
    assume "round_half_even y = f + 1 \<and> 1 / 2 \<le> r"
    then show ?thesis using fr by (simp add: y)
  qed
qed

lemma round64_quantum:
  assumes "x \<noteq> 0"
  shows "2 powr of_int (binade x - 52) / 2 \<le> \<bar>x\<bar> / 2 ^ 53 + 1 / 2 ^ 1075"
proof (cases "- 1022 \<le> \<lfloor>log 2 \<bar>x\<bar>\<rfloor>")
  case True
  then have b: "binade x = \<lfloor>log 2 \<bar>x\<bar>\<rfloor>" by (simp add: binade_def)
  have "of_int \<lfloor>log 2 \<bar>x\<bar>\<rfloor> \<le> log 2 \<bar>x\<bar>" by simp
  then have "2 powr of_int \<lfloor>log 2 \<bar>x\<bar>\<rfloor> \<le> 2 powr log 2 \<bar>x\<bar>"
    by (simp only: powr_le_cancel_iff [of 2] one_less_numeral_iff semiring_norm)
  also have "\<dots> = \<bar>x\<bar>" using assms by simp
  finally have le: "2 powr of_int (binade x) \<le> \<bar>x\<bar>" by (simp only: b)
  have "2 powr of_int (binade x - 52) = (2 powr of_int (binade x) / 2 ^ 52 :: real)"
    by (simp add: powr_diff)
  then have "2 powr of_int (binade x - 52) / 2 = (2 powr of_int (binade x) / 2 ^ 53 :: real)"
    by simp
  also have "\<dots> \<le> \<bar>x\<bar> / 2 ^ 53" using le by (simp add: divide_right_mono)
  finally show ?thesis by simp
next
  case False
  then have b: "binade x = - 1022" by (simp add: binade_def)
  have "2 powr of_int (binade x - 52) = (1 / 2 ^ 1074 :: real)"
    unfolding b by (simp add: powr_minus_divide)
  then show ?thesis by simp
qed

text \<open>The error of rounding.\<close>

lemma round64_close: "\<bar>round64 x - x\<bar> \<le> \<bar>x\<bar> / 2 ^ 53 + 1 / 2 ^ 1075"
proof (cases "x = 0")
  case True
  then show ?thesis by (simp add: round64_def)
next
  case False
  define q :: real where "q = 2 powr of_int (binade x - 52)"
  have q: "0 < q" by (simp add: q_def)
  have r: "round64 x = q * of_int (round_half_even (x / q))"
    using False by (simp add: round64_def q_def Let_def)
  have "round64 x - x = q * (of_int (round_half_even (x / q)) - x / q)"
    using q by (simp add: r algebra_simps)
  then have "\<bar>round64 x - x\<bar> = q * \<bar>of_int (round_half_even (x / q)) - x / q\<bar>"
    using q by (simp add: abs_mult)
  also have "\<dots> \<le> q * (1 / 2)"
    using q round_half_even_close [of "x / q"] by (intro mult_left_mono) simp_all
  also have "\<dots> \<le> \<bar>x\<bar> / 2 ^ 53 + 1 / 2 ^ 1075"
    using round64_quantum [OF False] by (simp add: q_def)
  finally show ?thesis .
qed

text \<open>A real of the binade in which the binary64 values are the multiples of \<open>2\<^sup>-\<^sup>n\<close>.\<close>

lemma round64_scaled:
  assumes "2 ^ 52 \<le> \<bar>x\<bar> * 2 ^ n" "\<bar>x\<bar> * 2 ^ n < 2 ^ 53" "n \<le> 1074"
  shows "round64 x = of_int (round_half_even (x * 2 ^ n)) / 2 ^ n"
proof -
  have x0: "x \<noteq> 0" using assms(1) by auto
  have p: "2 powr of_int (52 - int n) = (2 ^ 52 / 2 ^ n :: real)"
    by (simp add: powr_diff powr_realpow)
  have p': "2 powr of_int (52 - int n + 1) = (2 ^ 53 / 2 ^ n :: real)"
  proof -
    have "52 - int n + 1 = 53 - int n" by simp
    then show ?thesis by (simp add: powr_diff powr_realpow)
  qed
  have "2 powr of_int (52 - int n) \<le> \<bar>x\<bar>"
    using assms(1) unfolding p by (simp add: field_simps)
  moreover have "\<bar>x\<bar> < 2 powr of_int (52 - int n + 1)"
    using assms(2) unfolding p' by (simp add: field_simps)
  ultimately have "\<lfloor>log 2 \<bar>x\<bar>\<rfloor> = 52 - int n"
    using x0 by (subst floor_log_eq_powr_iff) simp_all
  then have b: "binade x = 52 - int n"
    using assms(3) by (simp add: binade_def)
  have "2 powr of_int (binade x - 52) = (1 / 2 ^ n :: real)"
    unfolding b by (simp add: powr_minus_divide powr_realpow)
  then show ?thesis
    using x0 by (simp add: round64_def Let_def)
qed

lemma round64_near:
  assumes "\<bar>x\<bar> \<le> 10 ^ 6"
  shows "\<bar>round64 x - x\<bar> \<le> 1 / 10 ^ 9"
proof -
  have "\<bar>x\<bar> / 2 ^ 53 \<le> 10 ^ 6 / 2 ^ 53" using assms by (simp add: divide_right_mono)
  moreover have "(10 ^ 6 / 2 ^ 53 + 1 / 2 ^ 1075 :: real) \<le> 1 / 10 ^ 9" by simp
  ultimately show ?thesis using round64_close [of x] by linarith
qed

lemma round64_bound: "\<bar>round64 x\<bar> \<le> 2 * \<bar>x\<bar> + 1"
proof -
  have "\<bar>x\<bar> / 2 ^ 53 \<le> \<bar>x\<bar>"
    by (simp add: field_simps)
  moreover have "(1 / 2 ^ 1075 :: real) \<le> 1" by simp
  ultimately show ?thesis using round64_close [of x] by linarith
qed

lemma binary64_Fin: "\<bar>x\<bar> \<le> 10 ^ 300 \<Longrightarrow> binary64 x = Fin (round64 x)"
proof -
  assume "\<bar>x\<bar> \<le> 10 ^ 300"
  with round64_bound [of x] have "\<bar>round64 x\<bar> \<le> 2 * 10 ^ 300 + 1" by linarith
  moreover have "(2 * 10 ^ 300 + 1 :: real) < 2 ^ 1024" by simp
  ultimately have "\<not> 2 ^ 1024 \<le> \<bar>round64 x\<bar>" by linarith
  then show ?thesis by (simp add: binary64_def Let_def)
qed

lemma round64_sign: "(round64 x < 0) \<longrightarrow> x < 0"
proof
  assume neg: "round64 x < 0"
  show "x < 0"
  proof (rule ccontr)
    assume "\<not> x < 0"
    then have x: "0 \<le> x" by simp
    show False
    proof (cases "x = 0")
      case True
      with neg show False by (simp add: round64_def)
    next
      case False
      define q :: real where "q = 2 powr of_int (binade x - 52)"
      have q: "0 < q" by (simp add: q_def)
      have "0 \<le> x / q" using x q by simp
      then have "0 \<le> \<lfloor>x / q\<rfloor>" by simp
      then have "0 \<le> round_half_even (x / q)"
        by (simp add: round_half_even_def Let_def)
      then have "0 \<le> q * of_int (round_half_even (x / q))" using q by simp
      with neg False show False by (simp add: round64_def q_def Let_def)
    qed
  qed
qed

section \<open>No location, no result\<close>

text \<open>
  Claim C10. While the user's location has not been acquired (the state is \<^verbatim>\<open>null\<close>),
  \<^verbatim>\<open>getNearbyStores\<close> returns the empty list, whatever the stores are.
\<close>

theorem getNearbyStores_no_location: "getNearbyStores None stores = []"
  by (simp add: getNearbyStores_def)

section \<open>Display strings and the sort key\<close>

lemma digit_char_digit: "d < 10 \<Longrightarrow> digit_char d \<in> set ''0123456789''"
proof -
  assume "d < 10"
  then have "d \<in> {0, 1, 2, 3, 4, 5, 6, 7, 8, 9}" by auto
  then show ?thesis by (auto simp: digit_char_def)
qed

lemma nat_digits_all_digits: "c \<in> set (nat_digits n) \<Longrightarrow> c \<in> set ''0123456789''"
proof (induction n rule: nat_digits.induct)
  case (1 n)
  show ?case
  proof (cases "n < 10")
    case True
    with "1.prems" show ?thesis
      using digit_char_digit [of n] by (simp add: nat_digits.simps [of n])
  next
    case False
    have "nat_digits n = nat_digits (n div 10) @ [digit_char (n mod 10)]"
      using False by (subst nat_digits.simps) simp
    with "1.prems" have "c \<in> set (nat_digits (n div 10)) \<or> c = digit_char (n mod 10)"
      by auto
    with False "1.IH" digit_char_digit [of "n mod 10"] show ?thesis
      by auto
  qed
qed

lemma no_space_nat_digits: "CHR '' '' \<notin> set (nat_digits n)"
  using nat_digits_all_digits [of "CHR '' ''" n] by auto

lemma no_space_strip_zeros: "CHR '' '' \<notin> set ds \<Longrightarrow> CHR '' '' \<notin> set (strip_zeros ds)"
  by (auto simp: strip_zeros_def dest: set_dropWhileD)

lemma no_space_take: "c \<notin> set ds \<Longrightarrow> c \<notin> set (take k ds)"
  by (auto dest: in_set_takeD)

lemma no_space_drop: "c \<notin> set ds \<Longrightarrow> c \<notin> set (drop k ds)"
  by (auto dest: in_set_dropD)

lemma no_space_toString_exponential: "CHR '' '' \<notin> set (toString_exponential a)"
  by (simp add: toString_exponential_def Let_def no_space_nat_digits no_space_strip_zeros
      no_space_take no_space_drop)

lemma no_space_fixed_digits: "CHR '' '' \<notin> set (fixed_digits n f)"
proof -
  have pad: "CHR '' '' \<notin> set (replicate k (CHR ''0'') @ nat_digits n)" for k
    by (simp add: no_space_nat_digits)
  show ?thesis
    unfolding fixed_digits_def Let_def
    by (cases "f = 0")
      (simp_all add: no_space_nat_digits no_space_take [OF pad] no_space_drop [OF pad]
        del: append_replicate_commute take_append drop_append)
qed

lemma no_space_toFixed: "CHR '' '' \<notin> set (toFixed x f)"
  by (cases x) (simp_all add: toFixed_def Let_def no_space_fixed_digits no_space_toString_exponential)

lemma no_space_formatDistance: "CHR '' '' \<notin> set (formatDistance d)"
  by (simp add: formatDistance_def no_space_toFixed)

lemma split_space_first_append:
  "CHR '' '' \<notin> set s \<Longrightarrow> split_space_first (s @ CHR '' '' # t) = s"
  by (induction s) (auto simp: split_space_first_def)

lemma split_space_first_entry:
  "split_space_first (distance (nearby_entry loc st)) =
   formatDistance (calculateDistance (lat loc) (lng loc)
     (parseFloat (or_zero (latitude st))) (parseFloat (or_zero (longitude st))))"
  by (simp add: nearby_entry_def Let_def split_space_first_append no_space_formatDistance)

lemma distance_to_entry:
  "distance_to loc (nearby_entry loc st) =
   calculateDistance (lat loc) (lng loc)
     (parseFloat (or_zero (latitude st))) (parseFloat (or_zero (longitude st)))"
  by (simp add: distance_to_def nearby_entry_def Let_def)

lemma dist_key_entry:
  "dist_key (nearby_entry loc st) = parseFloat (units (formatDistance (distance_to loc (nearby_entry loc st))))"
  by (simp only: dist_key_def split_space_first_entry distance_to_entry)

lemma compare_entries_dist_key: "compare_entries a b = dist_key a - dist_key b"
  by (simp add: compare_entries_def dist_key_def)

text \<open>Finite sort keys are compared as their values are.\<close>

lemma compare_entries_keyed:
  assumes "list_all (\<lambda>e. is_Fin (dist_key e)) es"
  shows "\<forall>x\<in>set es. \<forall>y\<in>set es.
    (compare_entries x y < Fin 0) = (fin_val (dist_key x) < fin_val (dist_key y))"
proof (intro ballI)
  fix x y assume "x \<in> set es" "y \<in> set es"
  with assms have "is_Fin (dist_key x)" "is_Fin (dist_key y)"
    by (simp_all add: list_all_iff)
  then obtain a b where "dist_key x = Fin a" "dist_key y = Fin b"
    by (auto simp: is_Fin_def split: number.splits)
  then show "(compare_entries x y < Fin 0) = (fin_val (dist_key x) < fin_val (dist_key y))"
    by (simp add: compare_entries_dist_key minus_number_def fin_val_def)
qed

lemma array_sort_compare_entries_stable:
  assumes "list_all (\<lambda>e. is_Fin (dist_key e)) es"
  shows "filter (\<lambda>e. dist_key e = key) (array_sort compare_entries es) = filter (\<lambda>e. dist_key e = key) es"
proof -
  note keyed = array_sort_keyed(2) [OF compare_entries_keyed [OF assms]]
  have fin: "is_Fin (dist_key e)" if "e \<in> set es" for e
    using assms that by (simp add: list_all_iff)
  have fin': "is_Fin (dist_key e)" if "e \<in> set (array_sort compare_entries es)" for e
    using fin that by (simp add: set_array_sort)
  show ?thesis
  proof (cases "is_Fin key")
    case True
    then obtain v where Fin: "key = Fin v"
      by (auto simp: is_Fin_def split: number.splits)
    have eq: "(dist_key e = key) = (fin_val (dist_key e) = v)" if "is_Fin (dist_key e)" for e
      using that by (auto simp: Fin is_Fin_def fin_val_def split: number.splits)
    have "filter (\<lambda>e. dist_key e = key) (array_sort compare_entries es) =
        filter (\<lambda>e. fin_val (dist_key e) = v) (array_sort compare_entries es)"
      by (rule filter_cong) (simp_all add: eq fin')
    also have "\<dots> = filter (\<lambda>e. fin_val (dist_key e) = v) es"
      by (rule keyed)
    also have "\<dots> = filter (\<lambda>e. dist_key e = key) es"
      by (rule filter_cong) (simp_all add: eq fin)
    finally show ?thesis .
  next
    case False
    have "filter (\<lambda>e. dist_key e = key) (array_sort compare_entries es) = []"
      using fin' False by (auto simp: filter_empty_conv)
    moreover have "filter (\<lambda>e. dist_key e = key) es = []"
      using fin False by (auto simp: filter_empty_conv)
    ultimately show ?thesis by simp
  qed
qed

section \<open>Texts that are numerals, and texts that are not\<close>

lemma numeral_value_not_NaN: "numeral_value s v \<noteq> NaN"
  by (simp add: numeral_value_def)

text \<open>\<^verbatim>\<open>parseFloat\<close> yields \<open>NaN\<close> for the texts that do not start with a numeral, and for no other.\<close>

lemma parseFloat_NaN_iff: "(parseFloat t = NaN) = (\<not> starts_numeral t)"
proof -
  obtain s u where su: "take_sign (dropWhile is_space t) = (s, u)"
    by (cases "take_sign (dropWhile is_space t)")
  show ?thesis
  proof (cases "take 8 u = units ''Infinity''")
    case True
    then show ?thesis
      by (simp add: parseFloat_def starts_numeral_def su)
  next
    case False
    show ?thesis
    proof (cases u)
      case Nil
      with False show ?thesis
        by (simp add: parseFloat_def starts_numeral_def su)
    next
      case (Cons c r)
      show ?thesis
      proof (cases "is_digit c")
        case True
        with False Cons show ?thesis
          by (simp add: parseFloat_def starts_numeral_def su Let_def numeral_value_not_NaN)
      next
        case nd: False
        show ?thesis
        proof (cases "c = cu (CHR ''.'')")
          case True
          with False Cons nd show ?thesis
            by (cases r)
              (simp_all add: parseFloat_def starts_numeral_def su Let_def numeral_value_not_NaN)
        next
          case np: False
          with False Cons nd show ?thesis
            by (simp add: parseFloat_def starts_numeral_def su Let_def)
        qed
      qed
    qed
  qed
qed

lemmas parse_simps = parseFloat_def is_space_def is_digit_def digits_value_def digit_val_def
  units_def cu_def numeral_value_def

lemma parseFloat_zero: "parseFloat (units ''0'') = Fin 0"
  by (simp add: parse_simps)

lemma mset_getNearbyStores:
  "mset (getNearbyStores (Some loc) stores) = mset (map (nearby_entry loc) stores)"
  by (simp add: getNearbyStores_def mset_array_sort)

lemma store_nearby_entry [simp]: "store (nearby_entry loc st) = st"
  by (simp add: nearby_entry_def Let_def)

lemma mset_stores_getNearbyStores:
  "mset (map store (getNearbyStores (Some loc) stores)) = mset stores"
proof -
  have "mset (map store (getNearbyStores (Some loc) stores)) =
      image_mset store (mset (getNearbyStores (Some loc) stores))"
    by simp
  also have "\<dots> = image_mset store (image_mset (nearby_entry loc) (mset stores))"
    by (simp only: mset_getNearbyStores mset_map)
  also have "\<dots> = mset stores"
    by (simp add: multiset.map_comp comp_def)
  finally show ?thesis .
qed

section \<open>The Haversine distance\<close>

text \<open>
  The lemmas of this section are about the formula in exact arithmetic. There the sum \<open>a\<close>
  lies between \<open>0\<close> and \<open>1\<close> for valid points, and it is \<open>1\<close> at antipodal points. In
  binary64 the sum is rounded and can come out above \<open>1\<close>: see the last section.
\<close>

lemma minus_Fin [simp]: "Fin x - Fin y = Fin (x - y)"
  by (simp add: minus_number_def)

lemma calculateDistance_Fin:
  "calculateDistance (Fin lat1) (Fin lon1) (Fin lat2) (Fin lon2) =
     (if hav lat1 lon1 lat2 lon2 < 0 \<or> 1 < hav lat1 lon1 lat2 lon2 then NaN
      else Fin (6371 * (2 * atan2 (sqrt (hav lat1 lon1 lat2 lon2)) (sqrt (1 - hav lat1 lon1 lat2 lon2)))))"
  by (simp add: calculateDistance_def hav_def Let_def Math_PI_def)

lemma calculateDistance_not_Fin:
  "(\<nexists>a b c d. lat1 = Fin a \<and> lon1 = Fin b \<and> lat2 = Fin c \<and> lon2 = Fin d) \<Longrightarrow>
   calculateDistance lat1 lon1 lat2 lon2 = NaN"
  by (cases lat1; cases lon1; cases lat2; cases lon2)
    (simp_all add: calculateDistance_def Let_def minus_number_def Math_PI_def signed_inf_def)

lemma hav_sym: "hav lat1 lon1 lat2 lon2 = hav lat2 lon2 lat1 lon1"
proof -
  have flip: "sin ((v - u) * pi / 180 / 2) = - sin ((u - v) * pi / 180 / 2)" for u v :: real
  proof -
    have "(v - u) * pi = - ((u - v) * pi)"
      by (simp only: mult_minus_left [symmetric] minus_diff_eq)
    then have "(v - u) * pi / 180 / 2 = - ((u - v) * pi / 180 / 2)"
      by simp
    then show ?thesis
      by (simp only: sin_minus)
  qed
  show ?thesis
    unfolding hav_def flip [of lat1 lat2] flip [of lon1 lon2] by simp
qed

lemma hav_le_1: "hav lat1 lon1 lat2 lon2 \<le> 1"
proof -
  define p where "p = (lat2 - lat1) * pi / 180 / 2"
  define q where "q = (lon2 - lon1) * pi / 180 / 2"
  define c where "c = cos (lat1 * pi / 180) * cos (lat2 * pi / 180)"
  have h: "hav lat1 lon1 lat2 lon2 = sin p * sin p + c * (sin q * sin q)"
    by (simp add: hav_def p_def q_def c_def)
  have "lat2 * pi / 180 - lat1 * pi / 180 = 2 * p"
    by (simp add: p_def algebra_simps)
  then have "cos (2 * p) = cos (lat2 * pi / 180 - lat1 * pi / 180)" by simp
  also have "\<dots> = c + sin (lat2 * pi / 180) * sin (lat1 * pi / 180)"
    by (simp add: cos_diff c_def)
  finally have c_eq: "c = cos (2 * p) - sin (lat2 * pi / 180) * sin (lat1 * pi / 180)" by simp
  have "cos (lat1 * pi / 180 + lat2 * pi / 180) \<le> 1" by simp
  then have "c - sin (lat1 * pi / 180) * sin (lat2 * pi / 180) \<le> 1"
    by (simp add: cos_add c_def)
  with c_eq have "2 * c \<le> 1 + cos (2 * p)" by (simp add: algebra_simps)
  then have c_le: "c \<le> 1 - sin p * sin p"
    by (simp add: cos_double_sin power2_eq_square)
  have sq: "sin t * sin t \<le> 1" for t :: real
    using sin_cos_squared_add3 [of t] zero_le_square [of "cos t"] by linarith
  have s: "0 \<le> sin q * sin q" "sin q * sin q \<le> 1"
    using sq [of q] by simp_all
  have pp: "sin p * sin p \<le> 1"
    by (rule sq)
  show ?thesis
  proof (cases "0 \<le> c")
    case True
    then have "c * (sin q * sin q) \<le> c * 1"
      using s by (intro mult_left_mono) simp_all
    with c_le show ?thesis unfolding h by simp
  next
    case False
    then have "c * (sin q * sin q) \<le> 0"
      using s by (simp add: mult_le_0_iff)
    with pp show ?thesis unfolding h by simp
  qed
qed

lemma hav_nonneg:
  "- 90 \<le> lat1 \<Longrightarrow> lat1 \<le> 90 \<Longrightarrow> - 90 \<le> lat2 \<Longrightarrow> lat2 \<le> 90 \<Longrightarrow> 0 \<le> hav lat1 lon1 lat2 lon2"
proof -
  assume a: "- 90 \<le> lat1" "lat1 \<le> 90" "- 90 \<le> lat2" "lat2 \<le> 90"
  have rad: "- (pi / 2) \<le> t * pi / 180 \<and> t * pi / 180 \<le> pi / 2" if "- 90 \<le> t" "t \<le> 90" for t
  proof -
    from that have "- 90 * pi \<le> t * pi" "t * pi \<le> 90 * pi"
      by (intro mult_right_mono; simp)+
    then show ?thesis by simp
  qed
  have "0 \<le> cos (lat1 * pi / 180)" "0 \<le> cos (lat2 * pi / 180)"
    using a rad by (auto intro!: cos_ge_zero)
  then have "0 \<le> cos (lat1 * pi / 180) * cos (lat2 * pi / 180) *
      (sin ((lon2 - lon1) * pi / 180 / 2) * sin ((lon2 - lon1) * pi / 180 / 2))"
    by (intro mult_nonneg_nonneg zero_le_square)
  moreover have "0 \<le> sin ((lat2 - lat1) * pi / 180 / 2) * sin ((lat2 - lat1) * pi / 180 / 2)"
    by simp
  ultimately show ?thesis
    unfolding hav_def by (simp add: mult.assoc)
qed

lemma atan2_nonneg: "0 \<le> y \<Longrightarrow> 0 \<le> x \<Longrightarrow> 0 \<le> atan2 y x"
  by (simp add: atan2_def)

lemma valid_GeoPoint_Fin:
  assumes "valid_GeoPoint la lo"
  obtains p l where "la = Fin p" "lo = Fin l" "- 90 \<le> p" "p \<le> 90" "- 180 \<le> l" "l \<le> 180"
  using assms by (cases la; cases lo) (auto simp: valid_GeoPoint_def less_eq_number_def)

lemma calculateDistance_valid:
  assumes "valid_GeoPoint lat1 lon1" "valid_GeoPoint lat2 lon2"
  shows "\<exists>d. calculateDistance lat1 lon1 lat2 lon2 = Fin d \<and> 0 \<le> d"
proof -
  from assms(1) obtain p1 l1 where 1: "lat1 = Fin p1" "lon1 = Fin l1" "- 90 \<le> p1" "p1 \<le> 90"
    by (rule valid_GeoPoint_Fin)
  from assms(2) obtain p2 l2 where 2: "lat2 = Fin p2" "lon2 = Fin l2" "- 90 \<le> p2" "p2 \<le> 90"
    by (rule valid_GeoPoint_Fin)
  have lo: "0 \<le> hav p1 l1 p2 l2" using 1 2 by (intro hav_nonneg)
  have hi: "hav p1 l1 p2 l2 \<le> 1" by (rule hav_le_1)
  have "0 \<le> atan2 (sqrt (hav p1 l1 p2 l2)) (sqrt (1 - hav p1 l1 p2 l2))"
    using lo hi by (intro atan2_nonneg) simp_all
  with lo hi show ?thesis
    unfolding 1 2 calculateDistance_Fin by simp
qed

lemma calculateDistance_swap:
  "calculateDistance lat1 lon1 lat2 lon2 = calculateDistance lat2 lon2 lat1 lon1"
proof (cases "\<exists>a b c d. lat1 = Fin a \<and> lon1 = Fin b \<and> lat2 = Fin c \<and> lon2 = Fin d")
  case True
  then obtain a b c d where "lat1 = Fin a" "lon1 = Fin b" "lat2 = Fin c" "lon2 = Fin d"
    by blast
  then show ?thesis
    by (simp only: calculateDistance_Fin hav_sym [of a b c d])
next
  case False
  then have "\<nexists>c d a b. lat2 = Fin c \<and> lon2 = Fin d \<and> lat1 = Fin a \<and> lon1 = Fin b"
    by blast
  then show ?thesis
    using calculateDistance_not_Fin [OF False] calculateDistance_not_Fin [of lat2 lon2 lat1 lon1]
    by simp
qed

lemma calculateDistance_same: "calculateDistance (Fin p) (Fin l) (Fin p) (Fin l) = Fin 0"
  by (simp add: calculateDistance_Fin hav_def atan2_def)

section \<open>Bounds on \<open>\<pi>\<close>\<close>

lemma sin_coeff_values:
  "sin_coeff 1 = 1" "sin_coeff 2 = 0" "sin_coeff 3 = - 1 / 6" "sin_coeff 4 = 0"
  "sin_coeff 5 = 1 / 120" "sin_coeff 6 = 0" "sin_coeff 7 = - 1 / 5040"
  by (simp_all add: sin_coeff_def fact_numeral)

lemma sum_below_8: "(\<Sum>m<8. f m) = f 0 + f 1 + f 2 + f 3 + f 4 + f 5 + f 6 + f (7::nat)" for f :: "nat \<Rightarrow> real"
  by (simp add: lessThan_nat_numeral lessThan_Suc)

lemma sin_poly8: "(\<Sum>m<8. sin_coeff m * x ^ m) = x - x^3/6 + x^5/120 - x^7/5040" for x :: real
  by (simp only: sum_below_8 sin_coeff_values sin_coeff_0 power_one_right mult_zero_left add_0_left add_0_right mult_1 )


lemma fact_8: "fact 8 = (40320 :: real)"
  by (simp add: fact_numeral)

lemma sin_approx8:
  "x - x^3/6 + x^5/120 - x^7/5040 - \<bar>x\<bar> ^ 8 / 40320 \<le> sin x"
  "sin x \<le> x - x^3/6 + x^5/120 - x^7/5040 + \<bar>x\<bar> ^ 8 / 40320" for x :: real
proof -
  have "\<bar>sin x - (x - x^3/6 + x^5/120 - x^7/5040)\<bar> \<le> inverse 40320 * \<bar>x\<bar> ^ 8"
    using Maclaurin_sin_bound [of x 8] by (simp only: sin_poly8 fact_8)
  then have "\<bar>sin x - (x - x^3/6 + x^5/120 - x^7/5040)\<bar> \<le> \<bar>x\<bar> ^ 8 / 40320"
    by (simp only: divide_inverse mult.commute)
  then show "x - x^3/6 + x^5/120 - x^7/5040 - \<bar>x\<bar> ^ 8 / 40320 \<le> sin x"
    and "sin x \<le> x - x^3/6 + x^5/120 - x^7/5040 + \<bar>x\<bar> ^ 8 / 40320"
    by (simp_all only: abs_le_iff) linarith+
qed

lemma pi_upper: "pi < 3.1416"
proof -
  have "(1 / 2 :: real) < 1309 / 2500 - (1309 / 2500) ^ 3 / 6 + (1309 / 2500) ^ 5 / 120 -
      (1309 / 2500) ^ 7 / 5040 - \<bar>1309 / 2500\<bar> ^ 8 / 40320"
    by (simp add: power_divide)
  also have "\<dots> \<le> sin (1309 / 2500)"
    by (rule sin_approx8(1))
  finally have "1 / 2 < sin (1309 / 2500 :: real)" .
  then have "sin (pi / 6) < sin (1309 / 2500 :: real)"
    by (simp add: sin_30)
  moreover have "1309 / 2500 \<le> pi / 2" "- (pi / 2) \<le> pi / 6" "pi / 6 \<le> pi / 2"
      "- (pi / 2) \<le> (1309 / 2500 :: real)"
    using pi_ge_two by simp_all
  ultimately have "pi / 6 < 1309 / 2500"
    using sin_mono_less_eq [of "pi / 6" "1309 / 2500"] by simp
  then show ?thesis by simp
qed

lemma pi_lower: "3.1415 < pi"
proof -
  have "sin (6283 / 12000 :: real) \<le> 6283 / 12000 - (6283 / 12000) ^ 3 / 6 +
      (6283 / 12000) ^ 5 / 120 - (6283 / 12000) ^ 7 / 5040 + \<bar>6283 / 12000\<bar> ^ 8 / 40320"
    by (rule sin_approx8(2))
  also have "\<dots> < 1 / 2"
    by (simp add: power_divide)
  finally have "sin (6283 / 12000 :: real) < 1 / 2" .
  then have "sin (6283 / 12000 :: real) < sin (pi / 6)"
    by (simp add: sin_30)
  moreover have "6283 / 12000 \<le> pi / 2" "- (pi / 2) \<le> pi / 6" "pi / 6 \<le> pi / 2"
      "- (pi / 2) \<le> (6283 / 12000 :: real)"
    using pi_ge_two by simp_all
  ultimately have "6283 / 12000 < pi / 6"
    using sin_mono_less_eq [of "6283 / 12000" "pi / 6"] by simp
  then show ?thesis by simp
qed


section \<open>Distance, bearing and display string at concrete points\<close>

lemma atan2_arcsin:
  assumes "0 \<le> a" "a \<le> 1"
  shows "atan2 (sqrt a) (sqrt (1 - a)) = arcsin (sqrt a)"
proof (cases "a = 1")
  case True
  then show ?thesis by (simp add: atan2_def)
next
  case False
  with assms have lt: "a < 1" by simp
  then have pos: "0 < sqrt (1 - a)" by simp
  have "sqrt a < 1" using lt assms by (simp add: real_sqrt_lt_1_iff)
  moreover have "- 1 < sqrt a" using assms by (smt (verit) real_sqrt_ge_zero)
  ultimately have "arcsin (sqrt a) = arctan (sqrt a / sqrt (1 - (sqrt a)\<^sup>2))"
    by (rule arcsin_arctan [rotated])
  with assms pos show ?thesis
    by (simp add: atan2_def)
qed

lemma calculateDistance_arcsin:
  assumes "0 \<le> hav lat1 lon1 lat2 lon2"
  shows "calculateDistance (Fin lat1) (Fin lon1) (Fin lat2) (Fin lon2) =
    Fin (6371 * (2 * arcsin (sqrt (hav lat1 lon1 lat2 lon2))))"
  using assms hav_le_1 [of lat1 lon1 lat2 lon2]
  by (simp add: calculateDistance_Fin atan2_arcsin)

lemma calculateDistance_equator:
  assumes "\<bar>t\<bar> \<le> 180"
  shows "calculateDistance (Fin 0) (Fin 0) (Fin 0) (Fin t) = Fin (6371 * (2 * (\<bar>t\<bar> * pi / 360)))"
proof -
  define u where "u = t * pi / 180 / 2"
  have h: "hav 0 0 0 t = sin u * sin u" by (simp add: hav_def u_def)
  have au: "\<bar>u\<bar> = \<bar>t\<bar> * pi / 360" by (simp add: u_def abs_mult)
  have "\<bar>t\<bar> * pi \<le> 180 * pi" using assms by (intro mult_right_mono) simp_all
  then have range: "0 \<le> \<bar>u\<bar>" "\<bar>u\<bar> \<le> pi / 2" by (simp_all add: au)
  have "sqrt (sin u * sin u) = \<bar>sin u\<bar>" by simp
  also have "\<dots> = sin \<bar>u\<bar>"
    using range sin_ge_zero [of "\<bar>u\<bar>"] by (cases "0 \<le> u") (simp_all add: abs_if)
  finally have "arcsin (sqrt (sin u * sin u)) = \<bar>u\<bar>"
    using range by (simp add: arcsin_sin)
  then have as: "arcsin (sqrt (hav 0 0 0 t)) = \<bar>t\<bar> * pi / 360"
    by (simp only: h au)
  have "0 \<le> hav 0 0 0 t" unfolding h by simp
  then show ?thesis
    by (simp only: calculateDistance_arcsin as)
qed

lemma bearing_equator_east:
  assumes "0 < t" "t < 180"
  shows "bearing (Fin 0) (Fin 0) (Fin 0) (Fin t) = Fin 90"
proof -
  have "t * pi < 180 * pi" using assms by (intro mult_strict_right_mono) simp_all
  then have "0 < t * pi / 180" "t * pi / 180 < pi" using assms by simp_all
  then have "0 < sin (t * pi / 180)" by (rule sin_gt_zero)
  then show ?thesis
    by (simp add: bearing_def Let_def Math_PI_def atan2_def)
qed

lemma bearing_equator_west:
  assumes "- 180 < t" "t < 0"
  shows "bearing (Fin 0) (Fin 0) (Fin 0) (Fin t) = Fin (- 90)"
proof -
  have "- t * pi < 180 * pi" using assms by (intro mult_strict_right_mono) simp_all
  moreover have "t * pi < 0" using assms by (simp add: mult_neg_pos)
  ultimately have "0 < - t * pi / 180" "- t * pi / 180 < pi" by simp_all
  then have "0 < sin (- t * pi / 180)" by (rule sin_gt_zero)
  then have "sin (t * pi / 180) < 0" by simp
  then show ?thesis
    by (simp add: bearing_def Let_def Math_PI_def atan2_def)
qed

lemma direction_equator_east:
  "0 < t \<Longrightarrow> t < 180 \<Longrightarrow> calculateDirection (Fin 0) (Fin 0) (Fin 0) (Fin t) = Some ''E''"
  by (simp add: calculateDirection_def direction_index_def bearing_equator_east trunc_def
      array_get_def directions_def)

lemma index_equator_west:
  "- 180 < t \<Longrightarrow> t < 0 \<Longrightarrow> direction_index (Fin 0) (Fin 0) (Fin 0) (Fin t) = Fin (- 2)"
  by (simp add: direction_index_def bearing_equator_west trunc_def ceiling_def)


lemma times64_1000: "\<bar>d\<bar> \<le> 10 ^ 21 \<Longrightarrow> times64 (Fin d) (Fin 1000) = Fin (round64 (d * 1000))"
proof -
  assume "\<bar>d\<bar> \<le> 10 ^ 21"
  then have "\<bar>d * 1000\<bar> \<le> 10 ^ 300" by (simp add: abs_mult)
  then show ?thesis by (simp add: binary64_Fin)
qed

lemma round64_nonneg: "0 \<le> x \<Longrightarrow> 0 \<le> round64 x"
  using round64_sign [of x] by auto

lemma round64_within:
  assumes "\<bar>x\<bar> \<le> 10 ^ 6"
  shows "x - 1 / 1000 \<le> round64 x" "round64 x \<le> x + 1 / 1000"
proof -
  have "\<bar>round64 x - x\<bar> \<le> 1 / 10 ^ 9" using assms by (rule round64_near)
  then have "\<bar>round64 x - x\<bar> \<le> 1 / 1000" by simp
  then show "x - 1 / 1000 \<le> round64 x" "round64 x \<le> x + 1 / 1000" by linarith+
qed

lemma formatDistance_m:
  assumes "0 \<le> d" "d < 1" "\<lfloor>round64 (d * 1000) + 1 / 2\<rfloor> = int n"
  shows "formatDistance (Fin d) = nat_digits n @ ''m''"
proof -
  have "\<not> Fin 1 \<le> Fin d" using assms by (simp add: less_eq_number_def)
  moreover have t: "times64 (Fin d) (Fin 1000) = Fin (round64 (d * 1000))"
    using assms by (intro times64_1000) simp
  moreover have "\<bar>round64 (d * 1000)\<bar> \<le> 2 * \<bar>d * 1000\<bar> + 1"
    by (rule round64_bound)
  then have "\<not> 10 ^ 21 \<le> \<bar>round64 (d * 1000)\<bar>" using assms by (simp add: abs_mult)
  moreover have "\<not> round64 (d * 1000) < 0"
    using round64_nonneg [of "d * 1000"] assms by simp
  ultimately show ?thesis
    using assms by (simp add: formatDistance_def toFixed_def fixed_digits_def)
qed

lemma formatDistance_km:
  assumes "1 \<le> d" "d < 10 ^ 21" "\<lfloor>d * 10 + 1 / 2\<rfloor> = int n"
  shows "formatDistance (Fin d) = fixed_digits n 1 @ ''km''"
proof -
  have "Fin 1 \<le> Fin d" using assms by (auto simp: less_eq_number_def)
  moreover have "\<not> 10 ^ 21 \<le> \<bar>d\<bar>" "\<not> d < 0" using assms by simp_all
  ultimately show ?thesis
    using assms by (simp add: formatDistance_def toFixed_def)
qed

lemma distance_near: "calculateDistance (Fin 0) (Fin 0) (Fin 0) (Fin (1 / 200)) = Fin (6371 * pi / 36000)"
  using calculateDistance_equator [of "1 / 200"] by simp

lemma format_near: "formatDistance (Fin (6371 * pi / 36000)) = ''556m''"
proof -
  define x where "x = 6371 * pi / 36000 * 1000"
  have x: "5559 / 10 < x" "x < 5560 / 10"
    using pi_lower pi_upper by (simp_all add: x_def)
  then have "\<bar>x\<bar> \<le> 10 ^ 6" by simp
  from round64_within [OF this] x
  have "5555 / 10 \<le> round64 x" "round64 x < 5565 / 10" by linarith+
  then have "\<lfloor>round64 x + 1 / 2\<rfloor> = int 556"
    by (simp add: floor_eq_iff)
  moreover have "0 \<le> 6371 * pi / 36000" "6371 * pi / 36000 < 1"
    using pi_upper by simp_all
  ultimately have "formatDistance (Fin (6371 * pi / 36000)) = nat_digits 556 @ ''m''"
    unfolding x_def by (rule formatDistance_m [rotated 2])
  then show ?thesis
    by (simp add: nat_digits.simps digit_char_def)
qed

lemma distance_far: "calculateDistance (Fin 0) (Fin 0) (Fin 0) (Fin (1 / 50)) = Fin (6371 * pi / 9000)"
  using calculateDistance_equator [of "1 / 50"] by simp

lemma format_far: "formatDistance (Fin (6371 * pi / 9000)) = ''2.2km''"
proof -
  have "\<lfloor>6371 * pi / 9000 * 10 + 1 / 2\<rfloor> = int 22"
    using pi_lower pi_upper by (simp add: floor_eq_iff)
  moreover have "1 \<le> 6371 * pi / 9000" "6371 * pi / 9000 < 10 ^ 21"
    using pi_lower pi_upper by simp_all
  ultimately have "formatDistance (Fin (6371 * pi / 9000)) = fixed_digits 22 1 @ ''km''"
    by (rule formatDistance_km [rotated 2])
  then show ?thesis
    by (simp add: fixed_digits_def nat_digits.simps digit_char_def)
qed

section \<open>The entries of some stores\<close>

lemma units_eq_Nil [simp]: "(units s = []) = (s = [])"
  by (simp add: units_def)

lemma entry_near:
  "nearby_entry equator_user (equator_store i ''0.005'') =
     \<lparr>store = equator_store i ''0.005'', storeLocation = \<lparr>lat = Fin 0, lng = Fin (1 / 200)\<rparr>,
      distance = ''556m (E)''\<rparr>"
proof -
  have "parseFloat (units ''0.005'') = Fin (1 / 200)" "parseFloat (units ''0'') = Fin 0"
    by (simp_all add: parse_simps)
  then show ?thesis
    by (simp add: nearby_entry_def equator_user_def equator_store_def or_zero_def Let_def
        distance_near format_near direction_equator_east template_string_def)
qed

lemma entry_far:
  "nearby_entry equator_user (equator_store i ''0.02'') =
     \<lparr>store = equator_store i ''0.02'', storeLocation = \<lparr>lat = Fin 0, lng = Fin (1 / 50)\<rparr>,
      distance = ''2.2km (E)''\<rparr>"
proof -
  have "parseFloat (units ''0.02'') = Fin (1 / 50)" "parseFloat (units ''0'') = Fin 0"
    by (simp_all add: parse_simps)
  then show ?thesis
    by (simp add: nearby_entry_def equator_user_def equator_store_def or_zero_def Let_def
        distance_far format_far direction_equator_east template_string_def)
qed

lemma direction_index_NaN: "direction_index (Fin 0) (Fin 0) NaN (Fin 0) = NaN"
  by (simp add: direction_index_def bearing_def Let_def Math_PI_def)

text \<open>
  A store whose latitude text is not a numeral: its coordinate is \<open>NaN\<close>, and so are the
  distance and the index of the direction; the entry reads ``NaNm (undefined)''.
\<close>

lemma entry_unknown:
  "nearby_entry equator_user (unknown_store i) =
     \<lparr>store = unknown_store i, storeLocation = \<lparr>lat = NaN, lng = Fin 0\<rparr>,
      distance = ''NaNm (undefined)''\<rparr>"
proof -
  have "calculateDistance (Fin 0) (Fin 0) NaN (Fin 0) = NaN"
    by (simp add: calculateDistance_not_Fin)
  moreover have "parseFloat (units ''unknown'') = NaN" "parseFloat (units ''0'') = Fin 0"
    by (simp_all add: parse_simps)
  ultimately show ?thesis
    by (simp add: nearby_entry_def equator_user_def unknown_store_def or_zero_def Let_def
        formatDistance_def less_eq_number_def toFixed_def calculateDirection_def
        direction_index_NaN array_get_def template_string_def)
qed

lemma dist_key_near: "dist_key \<lparr>store = s, storeLocation = l, distance = ''556m (E)''\<rparr> = Fin 556"
  by (simp add: dist_key_def split_space_first_def parse_simps)

lemma dist_key_far: "dist_key \<lparr>store = s, storeLocation = l, distance = ''2.2km (E)''\<rparr> = Fin (22 / 10)"
  by (simp add: dist_key_def split_space_first_def parse_simps)

lemma dist_key_unknown: "dist_key \<lparr>store = s, storeLocation = l, distance = ''NaNm (undefined)''\<rparr> = NaN"
  by (simp add: dist_key_def split_space_first_def parse_simps)

lemmas dist_keys = compare_entries_dist_key dist_key_near dist_key_far dist_key_unknown

section \<open>The order of the result\<close>

text \<open>
  Claim C1 says that the result is in non-decreasing order of the numeric distance. The sort
  key is the number read back from the front of the display string, which is in metres
  below one kilometre and in kilometres from there on. Here the user is at \<open>(0, 0)\<close>, one
  store is 556 m to the east and another 2.2 km: the nearer one comes last.
\<close>

theorem getNearbyStores_not_by_distance:
  "getNearbyStores (Some equator_user) [equator_store 1 ''0.005'', equator_store 2 ''0.02''] =
     [\<lparr>store = equator_store 2 ''0.02'', storeLocation = \<lparr>lat = Fin 0, lng = Fin (1 / 50)\<rparr>,
       distance = ''2.2km (E)''\<rparr>,
      \<lparr>store = equator_store 1 ''0.005'', storeLocation = \<lparr>lat = Fin 0, lng = Fin (1 / 200)\<rparr>,
       distance = ''556m (E)''\<rparr>] \<and>
   calculateDistance (Fin 0) (Fin 0) (Fin 0) (Fin (1 / 200)) <
     calculateDistance (Fin 0) (Fin 0) (Fin 0) (Fin (1 / 50))"
  by (simp add: getNearbyStores_def array_sort_def count_and_make_run_def entry_near entry_far
      dist_keys distance_near distance_far)

section \<open>More entries\<close>

lemma distance_close: "calculateDistance (Fin 0) (Fin 0) (Fin 0) (Fin (1 / 1000)) = Fin (6371 * pi / 180000)"
  using calculateDistance_equator [of "1 / 1000"] by simp

lemma format_close: "formatDistance (Fin (6371 * pi / 180000)) = ''111m''"
proof -
  define x where "x = 6371 * pi / 180000 * 1000"
  have x: "1111 / 10 < x" "x < 1112 / 10"
    using pi_lower pi_upper by (simp_all add: x_def)
  then have "\<bar>x\<bar> \<le> 10 ^ 6" by simp
  from round64_within [OF this] x
  have "1105 / 10 \<le> round64 x" "round64 x < 1115 / 10" by linarith+
  then have "\<lfloor>round64 x + 1 / 2\<rfloor> = int 111"
    by (simp add: floor_eq_iff)
  moreover have "0 \<le> 6371 * pi / 180000" "6371 * pi / 180000 < 1"
    using pi_upper by simp_all
  ultimately have "formatDistance (Fin (6371 * pi / 180000)) = nat_digits 111 @ ''m''"
    unfolding x_def by (rule formatDistance_m [rotated 2])
  then show ?thesis
    by (simp add: nat_digits.simps digit_char_def)
qed

lemma entry_close:
  "nearby_entry equator_user (equator_store i ''0.001'') =
     \<lparr>store = equator_store i ''0.001'', storeLocation = \<lparr>lat = Fin 0, lng = Fin (1 / 1000)\<rparr>,
      distance = ''111m (E)''\<rparr>"
proof -
  have "parseFloat (units ''0.001'') = Fin (1 / 1000)" "parseFloat (units ''0'') = Fin 0"
    by (simp_all add: parse_simps)
  then show ?thesis
    by (simp add: nearby_entry_def equator_user_def equator_store_def or_zero_def Let_def
        distance_close format_close direction_equator_east template_string_def)
qed

lemma dist_key_close: "dist_key \<lparr>store = s, storeLocation = l, distance = ''111m (E)''\<rparr> = Fin 111"
  by (simp add: dist_key_def split_space_first_def parse_simps)

lemma ident_equator_store [simp]: "ident (equator_store i lon) = i"
  by (simp add: equator_store_def)

lemma ident_unknown_store [simp]: "ident (unknown_store i) = i"
  by (simp add: unknown_store_def)

lemma equator_user_coordinates: "lat equator_user = Fin 0" "lng equator_user = Fin 0"
  by (simp_all add: equator_user_def)

lemma getNearbyStores_array_sort:
  "getNearbyStores (Some loc) stores = array_sort compare_entries (map (nearby_entry loc) stores)"
  by (simp add: getNearbyStores_def)

lemma equal_distance_equal_key:
  "distance_to loc (nearby_entry loc s) = distance_to loc (nearby_entry loc t) \<Longrightarrow>
   dist_key (nearby_entry loc s) = dist_key (nearby_entry loc t)"
  by (simp only: dist_key_entry)

section \<open>Stability\<close>

text \<open>
  Claim C9, as the code has it. \<^verbatim>\<open>getNearbyStores\<close> sorts the entries with a
  comparison function that takes the difference of their sort keys, and candidates whose
  computed distances are equal have equal sort keys. On every list of entries whose sort
  keys are all finite numbers (none is \<open>NaN\<close>) the sort is stable: the entries of one and
  the same sort key appear in the output in the order in which the input has them.
\<close>

theorem getNearbyStores_stable_numbers:
  "getNearbyStores (Some loc) stores = array_sort compare_entries (map (nearby_entry loc) stores) \<and>
   (distance_to loc (nearby_entry loc s) = distance_to loc (nearby_entry loc t) \<longrightarrow>
      dist_key (nearby_entry loc s) = dist_key (nearby_entry loc t)) \<and>
   (list_all (\<lambda>e. is_Fin (dist_key e)) es \<longrightarrow>
      filter (\<lambda>e. dist_key e = key) (array_sort compare_entries es) =
      filter (\<lambda>e. dist_key e = key) es)"
  using getNearbyStores_array_sort equal_distance_equal_key array_sort_compare_entries_stable
  by blast

theorem getNearbyStores_stable_numbers_witness:
  "distance_to equator_user (nearby_entry equator_user (equator_store 1 ''0.02'')) =
     distance_to equator_user (nearby_entry equator_user (equator_store 2 ''0.02'')) \<and>
   dist_key (nearby_entry equator_user (equator_store 1 ''0.02'')) =
     dist_key (nearby_entry equator_user (equator_store 2 ''0.02'')) \<and>
   list_all (\<lambda>e. is_Fin (dist_key e))
     (map (nearby_entry equator_user)
       [equator_store 1 ''0.02'', equator_store 2 ''0.005'', equator_store 3 ''0.02'']) \<and>
   filter (\<lambda>e. dist_key e = Fin (22 / 10))
     (array_sort compare_entries (map (nearby_entry equator_user)
       [equator_store 1 ''0.02'', equator_store 2 ''0.005'', equator_store 3 ''0.02''])) =
   filter (\<lambda>e. dist_key e = Fin (22 / 10))
     (map (nearby_entry equator_user)
       [equator_store 1 ''0.02'', equator_store 2 ''0.005'', equator_store 3 ''0.02''])"
  using getNearbyStores_stable_numbers [of equator_user "[equator_store 1 ''0.02'']" "equator_store 1 ''0.02''"
      "equator_store 2 ''0.02''"
      "map (nearby_entry equator_user)
        [equator_store 1 ''0.02'', equator_store 2 ''0.005'', equator_store 3 ''0.02'']"
      "Fin (22 / 10)"]
  by (simp add: entry_far entry_near dist_keys is_Fin_def distance_to_def getNearbyStores_def
      array_sort_def count_and_make_run_def binary_insert_def binary_search.simps Let_def
      minus_number_def)

text \<open>
  The claim as stated, for every input list, fails when a sort key is \<open>NaN\<close>, as it is
  for a store whose latitude text is not a numeral. The comparison function then yields
  \<open>NaN\<close> for every pair with that store and is no consistent ordering. Of the seven
  stores of \<open>unstable_stores\<close> the first and the fourth have the key \<open>NaN\<close>; the
  sixth and the seventh are 111 m from the user both, and they come out in the order 7, 6.
\<close>

theorem getNearbyStores_unstable_counterexample:
  "map (\<lambda>e. ident (store e)) (getNearbyStores (Some equator_user) unstable_stores) =
     [1, 3, 5, 7, 2, 4, 6] \<and>
   distance_to equator_user (nearby_entry equator_user (equator_store 6 ''0.001'')) =
     distance_to equator_user (nearby_entry equator_user (equator_store 7 ''0.001'')) \<and>
   map (\<lambda>e. ident (store e))
     (filter (\<lambda>e. distance_to equator_user e = Fin (6371 * pi / 180000))
       (getNearbyStores (Some equator_user) unstable_stores)) = [7, 6] \<and>
   map (\<lambda>e. ident (store e))
     (filter (\<lambda>e. distance_to equator_user e = Fin (6371 * pi / 180000))
       (map (nearby_entry equator_user) unstable_stores)) = [6, 7]"
proof -
  have out: "getNearbyStores (Some equator_user) unstable_stores =
      map (nearby_entry equator_user)
        [unknown_store 1, equator_store 3 ''0.02'', equator_store 5 ''0.02'',
         equator_store 7 ''0.001'', equator_store 2 ''0.005'', unknown_store 4,
         equator_store 6 ''0.001'']"
    by (simp add: getNearbyStores_def unstable_stores_def entry_near entry_far entry_unknown
        entry_close array_sort_def count_and_make_run_def binary_insert_def binary_search.simps
        Let_def dist_keys dist_key_close minus_number_def)
  have d: "distance_to equator_user (nearby_entry equator_user (equator_store i ''0.001'')) =
      Fin (6371 * pi / 180000)"
      "distance_to equator_user (nearby_entry equator_user (equator_store i ''0.02'')) =
      Fin (6371 * pi / 9000)"
      "distance_to equator_user (nearby_entry equator_user (equator_store i ''0.005'')) =
      Fin (6371 * pi / 36000)"
      "distance_to equator_user (nearby_entry equator_user (unknown_store i)) = NaN" for i
    by (simp_all add: entry_close entry_far entry_near entry_unknown distance_to_def
        equator_user_coordinates distance_close distance_far distance_near
        calculateDistance_not_Fin)
  show ?thesis
    unfolding out by (simp add: unstable_stores_def d)
qed

section \<open>Compass points\<close>

lemma atan2_bounds: "- pi < atan2 y x \<and> atan2 y x \<le> pi"
proof -
  have b: "- (pi / 2) < arctan (y / x)" "arctan (y / x) < pi / 2"
    by (rule arctan_lbound, rule arctan_ubound)
  have p: "0 < pi" by simp
  consider "0 < x" | "x < 0" "0 \<le> y" | "x < 0" "y < 0" | "x = 0"
    by linarith
  then show ?thesis
  proof cases
    case 1
    then have "atan2 y x = arctan (y / x)" by (simp add: atan2_def)
    with b p show ?thesis by linarith
  next
    case 2
    then have "y / x \<le> 0" by (simp add: divide_nonneg_neg)
    then have "arctan (y / x) \<le> 0" by simp
    moreover from 2 have "atan2 y x = arctan (y / x) + pi" by (simp add: atan2_def)
    ultimately show ?thesis using b p by linarith
  next
    case 3
    then have "0 < y / x" by (simp add: divide_neg_neg)
    then have "0 < arctan (y / x)" by (simp add: zero_less_arctan_iff)
    moreover from 3 have "atan2 y x = arctan (y / x) - pi" by (simp add: atan2_def)
    ultimately show ?thesis using b p by linarith
  next
    case 4
    then have "atan2 y x = pi / 2 \<or> atan2 y x = - (pi / 2) \<or> atan2 y x = 0"
      by (simp add: atan2_def)
    with p show ?thesis by linarith
  qed
qed

lemma bearing_range:
  "bearing lat1 lon1 lat2 lon2 = NaN \<or>
   (\<exists>b. bearing lat1 lon1 lat2 lon2 = Fin b \<and> - 180 < b \<and> b \<le> 180)"
proof (cases "\<exists>a b c d. lat1 = Fin a \<and> lon1 = Fin b \<and> lat2 = Fin c \<and> lon2 = Fin d")
  case True
  then obtain a b c d where f: "lat1 = Fin a" "lon1 = Fin b" "lat2 = Fin c" "lon2 = Fin d"
    by blast
  obtain y x where "bearing lat1 lon1 lat2 lon2 = Fin (atan2 y x * 180 / pi)"
    unfolding f by (simp add: bearing_def Let_def Math_PI_def)
  moreover have "- 180 < atan2 y x * 180 / pi" "atan2 y x * 180 / pi \<le> 180"
    using atan2_bounds [of y x] by (simp_all add: field_simps)
  ultimately show ?thesis by blast
next
  case False
  then have "bearing lat1 lon1 lat2 lon2 = NaN"
    by (cases lat1; cases lon1; cases lat2; cases lon2)
      (simp_all add: bearing_def Let_def minus_number_def Math_PI_def signed_inf_def)
  then show ?thesis by simp
qed

lemma direction_index_range:
  "direction_index lat1 lon1 lat2 lon2 = NaN \<or>
   (\<exists>k. direction_index lat1 lon1 lat2 lon2 = Fin (of_int k) \<and> - 4 \<le> k \<and> k \<le> 4)"
proof -
  from bearing_range [of lat1 lon1 lat2 lon2] show ?thesis
  proof
    assume "bearing lat1 lon1 lat2 lon2 = NaN"
    then show ?thesis by (simp add: direction_index_def)
  next
    assume "\<exists>b. bearing lat1 lon1 lat2 lon2 = Fin b \<and> - 180 < b \<and> b \<le> 180"
    then obtain b where b: "bearing lat1 lon1 lat2 lon2 = Fin b" "- 180 < b" "b \<le> 180"
      by blast
    define k where "k = \<lfloor>b / 45 + 1 / 2\<rfloor>"
    have "- 4 \<le> k" "k \<le> 4"
      using b unfolding k_def by (simp_all add: le_floor_iff floor_le_iff)
    then have "k \<in> {- 4, - 3, - 2, - 1, 0, 1, 2, 3, 4}" by auto
    then have "Fin (of_int k) mod Fin 8 = Fin (of_int k)"
      by (auto simp: trunc_def ceiling_def)
    then have "direction_index lat1 lon1 lat2 lon2 = Fin (of_int k)"
      by (simp add: direction_index_def b k_def)
    with \<open>- 4 \<le> k\<close> \<open>k \<le> 4\<close> show ?thesis by blast
  qed
qed

lemma calculateDirection_range:
  "calculateDirection lat1 lon1 lat2 lon2 \<in>
     {None, Some ''N'', Some ''NE'', Some ''E'', Some ''SE'', Some ''S''}"
proof -
  from direction_index_range [of lat1 lon1 lat2 lon2] show ?thesis
  proof
    assume "direction_index lat1 lon1 lat2 lon2 = NaN"
    then show ?thesis by (simp add: calculateDirection_def array_get_def)
  next
    assume "\<exists>k. direction_index lat1 lon1 lat2 lon2 = Fin (of_int k) \<and> - 4 \<le> k \<and> k \<le> 4"
    then obtain k where k: "direction_index lat1 lon1 lat2 lon2 = Fin (of_int k)" "- 4 \<le> k" "k \<le> 4"
      by blast
    then have "k \<in> {- 4, - 3, - 2, - 1, 0, 1, 2, 3, 4}" by auto
    then show ?thesis
      unfolding calculateDirection_def k(1)
      by (auto simp: array_get_def directions_def)
  qed
qed

text \<open>
  Claim C2 says that \<^verbatim>\<open>calculateDirection\<close> returns one of the eight compass points, a
  westward bearing giving ``W''. The bearing is not brought into \<open>[0, 360)\<close>: it lies in
  \<open>(-180, 180]\<close>, the index in \<open>-4 .. 4\<close>, and a negative index finds no element. From
  \<open>(0, 0)\<close> to \<open>(0, -1)\<close>, due west, the result is \<^verbatim>\<open>undefined\<close>; the entries
  ``SW'', ``W'' and ``NW'' of the array are never returned.
\<close>

theorem calculateDirection_west_undefined:
  "calculateDirection (Fin 0) (Fin 0) (Fin 0) (Fin (- 1)) = None \<and>
   calculateDirection lat1 lon1 lat2 lon2 \<notin> {Some ''SW'', Some ''W'', Some ''NW''}"
  using calculateDirection_range [of lat1 lon1 lat2 lon2]
  by (auto simp: calculateDirection_def index_equator_west array_get_def)


section \<open>The index into the array of directions\<close>

lemma distance_west: "calculateDistance (Fin 0) (Fin 0) (Fin 0) (Fin (- 1)) = Fin (6371 * pi / 180)"
  using calculateDistance_equator [of "- 1"] by simp

lemma format_west: "formatDistance (Fin (6371 * pi / 180)) = ''111.2km''"
proof -
  have "\<lfloor>6371 * pi / 180 * 10 + 1 / 2\<rfloor> = int 1112"
    using pi_lower pi_upper by (simp add: floor_eq_iff)
  moreover have "1 \<le> 6371 * pi / 180" "6371 * pi / 180 < 10 ^ 21"
    using pi_lower pi_upper by simp_all
  ultimately have "formatDistance (Fin (6371 * pi / 180)) = fixed_digits 1112 1 @ ''km''"
    by (rule formatDistance_km [rotated 2])
  then show ?thesis
    by (simp add: fixed_digits_def nat_digits.simps digit_char_def)
qed

text \<open>
  Claim C4 says that the pipeline is total, the index computed in
  \<^verbatim>\<open>calculateDirection\<close> lying always within the bounds of the array of the eight
  directions. The pipeline does return an entry for every store (lemma
  \<open>mset_stores_getNearbyStores\<close>), but the index is not always within the bounds. For a
  store due west of the user, at \<open>(0, -1)\<close> seen from \<open>(0, 0)\<close>, the index is \<open>-2\<close>:
  the remainder \<^verbatim>\<open>% 8\<close> of the negative quotient stays negative. The array access
  yields \<^verbatim>\<open>undefined\<close>, and the display string of the entry ends in
  ``(undefined)''.
\<close>

theorem direction_index_west_negative:
  "direction_index (Fin 0) (Fin 0) (Fin 0) (Fin (- 1)) = Fin (- 2) \<and>
   \<not> Fin 0 \<le> direction_index (Fin 0) (Fin 0) (Fin 0) (Fin (- 1)) \<and>
   getNearbyStores (Some equator_user) [equator_store 1 ''-1''] =
     [\<lparr>store = equator_store 1 ''-1'', storeLocation = \<lparr>lat = Fin 0, lng = Fin (- 1)\<rparr>,
       distance = ''111.2km (undefined)''\<rparr>]"
proof -
  have "parseFloat (units ''-1'') = Fin (- 1)" "parseFloat (units ''0'') = Fin 0"
    by (simp_all add: parse_simps)
  then show ?thesis
    by (simp add: getNearbyStores_def array_sort_def count_and_make_run_def nearby_entry_def
        equator_user_def equator_store_def or_zero_def Let_def distance_west format_west
        index_equator_west calculateDirection_def array_get_def template_string_def
        less_eq_number_def)
qed

section \<open>Stores without usable coordinates\<close>

text \<open>
  Claim C3, as the code has it. A latitude or longitude text that is missing or empty is
  read as \<open>0\<close>. A text that is present is given to \<^verbatim>\<open>parseFloat\<close>: the coordinate
  is \<open>NaN\<close>, not \<open>0\<close>, exactly when the text does not start with a numeral (after white
  space and an optional sign: \<^verbatim>\<open>Infinity\<close>, a digit, or a point and a digit). The
  result holds one entry for each store.
\<close>

theorem store_coordinates:
  "(latitude st = None \<or> latitude st = Some [] \<longrightarrow>
      lat (storeLocation (nearby_entry loc st)) = Fin 0) \<and>
   (longitude st = None \<or> longitude st = Some [] \<longrightarrow>
      lng (storeLocation (nearby_entry loc st)) = Fin 0) \<and>
   (latitude st = Some t \<and> t \<noteq> [] \<longrightarrow>
      (lat (storeLocation (nearby_entry loc st)) = NaN) = (\<not> starts_numeral t)) \<and>
   (longitude st = Some t \<and> t \<noteq> [] \<longrightarrow>
      (lng (storeLocation (nearby_entry loc st)) = NaN) = (\<not> starts_numeral t)) \<and>
   mset (map store (getNearbyStores (Some loc) stores)) = mset stores"
  using mset_stores_getNearbyStores [of loc stores]
  by (auto simp: nearby_entry_def Let_def or_zero_def parseFloat_zero parseFloat_NaN_iff)

theorem store_coordinates_witness:
  "latitude (unknown_store 1) = Some (units ''unknown'') \<and> units ''unknown'' \<noteq> [] \<and>
   \<not> starts_numeral (units ''unknown'') \<and>
   lat (storeLocation (nearby_entry equator_user (unknown_store 1))) = NaN \<and>
   longitude (unknown_store 1) = Some (units ''0'') \<and> units ''0'' \<noteq> [] \<and>
   starts_numeral (units ''0'') \<and>
   lng (storeLocation (nearby_entry equator_user (unknown_store 1))) \<noteq> NaN \<and>
   latitude \<lparr>ident = 2, name = ''Shop'', address = ''Siraha'', latitude = None,
     longitude = Some [], details = ()\<rparr> = None \<and>
   lat (storeLocation (nearby_entry equator_user
     \<lparr>ident = 2, name = ''Shop'', address = ''Siraha'', latitude = None,
       longitude = Some [], details = ()\<rparr>)) = Fin 0 \<and>
   lng (storeLocation (nearby_entry equator_user
     \<lparr>ident = 2, name = ''Shop'', address = ''Siraha'', latitude = None,
       longitude = Some [], details = ()\<rparr>)) = Fin 0"
  using store_coordinates [of "unknown_store 1" equator_user "units ''unknown''" "[unknown_store 1]"]
    store_coordinates [of "unknown_store 1" equator_user "units ''0''" "[unknown_store 1]"]
    store_coordinates [of "\<lparr>ident = 2, name = ''Shop'', address = ''Siraha'', latitude = None,
       longitude = Some [], details = ()\<rparr>" equator_user "[]" "[unknown_store 1]"]
  by (simp add: unknown_store_def starts_numeral_def is_space_def is_digit_def units_def cu_def)

text \<open>
  The claim as stated fails for a text that is not a number: the coordinate that reaches the
  distance computation is \<open>NaN\<close>, not \<open>0\<close>.
\<close>

theorem unparseable_latitude_counterexample:
  "lat (storeLocation (nearby_entry
      \<lparr>lat = Fin 0, lng = Fin 0, googleMapsLink = None, coordinates = None\<rparr>
      \<lparr>ident = 1, name = ''Shop'', address = ''Siraha'', latitude = Some (units ''unknown''),
        longitude = Some (units ''86.2''), details = ()\<rparr>)) = NaN \<and>
   lat (storeLocation (nearby_entry
      \<lparr>lat = Fin 0, lng = Fin 0, googleMapsLink = None, coordinates = None\<rparr>
      \<lparr>ident = 1, name = ''Shop'', address = ''Siraha'', latitude = Some (units ''unknown''),
        longitude = Some (units ''86.2''), details = ()\<rparr>)) \<noteq> Fin 0"
  by (simp add: nearby_entry_def Let_def or_zero_def parse_simps)

section \<open>Kathmandu to Biratnagar\<close>

lemma cos_lower_quadratic: "1 - x\<^sup>2 / 2 \<le> cos x" for x :: real
proof -
  have "\<bar>sin (x / 2)\<bar> \<le> \<bar>x / 2\<bar>" by (rule abs_sin_x_le_abs_x)
  then have "(sin (x / 2))\<^sup>2 \<le> (x / 2)\<^sup>2"
    by (simp only: abs_le_square_iff)
  moreover have "cos x = 1 - 2 * (sin (x / 2))\<^sup>2"
    using cos_double_sin [of "x / 2"] by simp
  ultimately show ?thesis
    by (simp add: power_divide)
qed

lemma cos_upper_from_sin:
  fixes x s :: real
  assumes "0 \<le> s" "s \<le> sin (x / 2)"
  shows "cos x \<le> 1 - 2 * s\<^sup>2"
proof -
  have "s\<^sup>2 \<le> (sin (x / 2))\<^sup>2"
    using assms by (intro power_mono) simp_all
  moreover have "cos x = 1 - 2 * (sin (x / 2))\<^sup>2"
    using cos_double_sin [of "x / 2"] by simp
  ultimately show ?thesis by simp
qed

lemma sin_lower_cubic:
  fixes x :: real
  assumes "0 \<le> x" "x \<le> 1"
  shows "x - x ^ 3 / 6 \<le> sin x"
proof -
  have a: "x ^ 7 \<le> x ^ 5" "x ^ 8 \<le> x ^ 5"
    using assms by (intro power_decreasing; simp)+
  have c: "0 \<le> x ^ 5"
    using assms by simp
  have "\<bar>x\<bar> = x"
    using assms by simp
  with sin_approx8(1) [of x]
  have "x - x ^ 3 / 6 + x ^ 5 / 120 - x ^ 7 / 5040 - x ^ 8 / 40320 \<le> sin x"
    by simp
  with a c show ?thesis by linarith
qed

lemma sin_sq_le: "sin x * sin x \<le> x * x" for x :: real
  using abs_sin_x_le_abs_x [of x] by (simp add: abs_le_square_iff power2_eq_square)

lemma sin_at_least:
  fixes x x0 :: real
  assumes "0 \<le> x0" "x0 \<le> 1" "x0 \<le> x" "x \<le> pi / 2"
  shows "x0 - x0 ^ 3 / 6 \<le> sin x"
proof -
  have "x0 - x0 ^ 3 / 6 \<le> sin x0"
    using assms by (intro sin_lower_cubic)
  also have "sin x0 \<le> sin x"
    using assms pi_ge_two by (intro sin_monotone_2pi_le) simp_all
  finally show ?thesis .
qed

lemma kathmandu_biratnagar_hav:
  "(185 / 10000)\<^sup>2 \<le> hav (138529 / 5000) (213323 / 2500) (16542 / 625) (109093 / 1250) \<and>
   hav (138529 / 5000) (213323 / 2500) (16542 / 625) (109093 / 1250) \<le> (1889 / 100000)\<^sup>2"
proof -
  define p where "p = 6193 / 5000 * pi / 360"
  define q where "q = 4863 / 2500 * pi / 360"
  define f1 where "f1 = 138529 / 5000 * pi / 180"
  define f2 where "f2 = 16542 / 625 * pi / 180"
  note pi_bounds = pi_lower pi_upper
  have h: "hav (138529 / 5000) (213323 / 2500) (16542 / 625) (109093 / 1250) =
      sin p * sin p + cos f1 * cos f2 * (sin q * sin q)"
  proof -
    have "(16542 / 625 - 138529 / 5000) * pi / 180 / 2 = - p"
      by (simp add: p_def)
    moreover have "(109093 / 1250 - 213323 / 2500) * pi / 180 / 2 = q"
      by (simp add: q_def)
    ultimately show ?thesis
      unfolding hav_def f1_def f2_def by (simp only: sin_minus)
  qed
  have pb: "108 / 10000 \<le> p" "p \<le> 1081 / 100000"
    using pi_bounds by (simp_all add: p_def)
  have qb: "1697 / 100000 \<le> q" "q \<le> 1698 / 100000"
    using pi_bounds by (simp_all add: q_def)
  have f1b: "24175 / 100000 \<le> f1 / 2" "f1 \<le> 4836 / 10000"
    using pi_bounds by (simp_all add: f1_def)
  have f2b: "23095 / 100000 \<le> f2 / 2" "f2 \<le> 462 / 1000"
    using pi_bounds by (simp_all add: f2_def)
  have small: "p \<le> pi / 2" "q \<le> pi / 2" "f1 / 2 \<le> pi / 2" "f2 / 2 \<le> pi / 2"
    using pb qb f1b f2b pi_ge_two by simp_all
  \<comment> \<open>the sines\<close>
  have sp_lo: "10799 / 1000000 \<le> sin p"
  proof -
    have "(10799 / 1000000 :: real) \<le> 108 / 10000 - (108 / 10000) ^ 3 / 6"
      by (simp add: power_divide)
    also have "\<dots> \<le> sin p"
      using pb small by (intro sin_at_least) simp_all
    finally show ?thesis .
  qed
  have sq_lo: "16969 / 1000000 \<le> sin q"
  proof -
    have "(16969 / 1000000 :: real) \<le> 1697 / 100000 - (1697 / 100000) ^ 3 / 6"
      by (simp add: power_divide)
    also have "\<dots> \<le> sin q"
      using qb small by (intro sin_at_least) simp_all
    finally show ?thesis .
  qed
  have s1_lo: "2393 / 10000 \<le> sin (f1 / 2)"
  proof -
    have "(2393 / 10000 :: real) \<le> 24175 / 100000 - (24175 / 100000) ^ 3 / 6"
      by (simp add: power_divide)
    also have "\<dots> \<le> sin (f1 / 2)"
      using f1b small by (intro sin_at_least) simp_all
    finally show ?thesis .
  qed
  have s2_lo: "2288 / 10000 \<le> sin (f2 / 2)"
  proof -
    have "(2288 / 10000 :: real) \<le> 23095 / 100000 - (23095 / 100000) ^ 3 / 6"
      by (simp add: power_divide)
    also have "\<dots> \<le> sin (f2 / 2)"
      using f2b small by (intro sin_at_least) simp_all
    finally show ?thesis .
  qed
  have spp_lo: "(10799 / 1000000)\<^sup>2 \<le> sin p * sin p"
    using sp_lo by (simp only: power2_eq_square) (intro mult_mono; simp)
  have sqq_lo: "(16969 / 1000000)\<^sup>2 \<le> sin q * sin q"
    using sq_lo by (simp only: power2_eq_square) (intro mult_mono; simp)
  have spp_hi: "sin p * sin p \<le> (1081 / 100000)\<^sup>2"
  proof -
    have "sin p * sin p \<le> p * p" by (rule sin_sq_le)
    also have "\<dots> \<le> (1081 / 100000) * (1081 / 100000)"
      using pb by (intro mult_mono) simp_all
    finally show ?thesis by (simp add: power2_eq_square)
  qed
  have sqq_hi: "sin q * sin q \<le> (1698 / 100000)\<^sup>2"
  proof -
    have "sin q * sin q \<le> q * q" by (rule sin_sq_le)
    also have "\<dots> \<le> (1698 / 100000) * (1698 / 100000)"
      using qb by (intro mult_mono) simp_all
    finally show ?thesis by (simp add: power2_eq_square)
  qed
  \<comment> \<open>the cosines\<close>
  have c1_hi: "cos f1 \<le> 1 - 2 * (2393 / 10000)\<^sup>2"
    using s1_lo by (intro cos_upper_from_sin) simp_all
  have c2_hi: "cos f2 \<le> 1 - 2 * (2288 / 10000)\<^sup>2"
    using s2_lo by (intro cos_upper_from_sin) simp_all
  have c1_lo: "1 - (4836 / 10000)\<^sup>2 / 2 \<le> cos f1"
  proof -
    have "0 \<le> f1" using f1b by simp
    then have "f1\<^sup>2 \<le> (4836 / 10000)\<^sup>2"
      using f1b by (intro power_mono) simp_all
    with cos_lower_quadratic [of f1] show ?thesis by simp
  qed
  have c2_lo: "1 - (462 / 1000)\<^sup>2 / 2 \<le> cos f2"
  proof -
    have "0 \<le> f2" using f2b by simp
    then have "f2\<^sup>2 \<le> (462 / 1000)\<^sup>2"
      using f2b by (intro power_mono) simp_all
    with cos_lower_quadratic [of f2] show ?thesis by simp
  qed
  have c1_pos: "0 \<le> cos f1" and c2_pos: "0 \<le> cos f2"
    using c1_lo c2_lo by (simp_all add: power_divide)
  have cc_hi: "cos f1 * cos f2 \<le> (1 - 2 * (2393 / 10000)\<^sup>2) * (1 - 2 * (2288 / 10000)\<^sup>2)"
    using c1_hi c2_hi c1_pos c2_pos by (intro mult_mono) (simp_all add: power_divide)
  have cc_lo: "(1 - (4836 / 10000)\<^sup>2 / 2) * (1 - (462 / 1000)\<^sup>2 / 2) \<le> cos f1 * cos f2"
    using c1_lo c2_lo c1_pos c2_pos by (intro mult_mono) (simp_all add: power_divide)
  have cc_pos: "0 \<le> cos f1 * cos f2"
    using c1_pos c2_pos by simp
  \<comment> \<open>the sum\<close>
  have "cos f1 * cos f2 * (sin q * sin q) \<le>
      (1 - 2 * (2393 / 10000)\<^sup>2) * (1 - 2 * (2288 / 10000)\<^sup>2) * (1698 / 100000)\<^sup>2"
    by (rule mult_mono [OF cc_hi sqq_hi]) (simp_all add: power_divide)
  with spp_hi have "sin p * sin p + cos f1 * cos f2 * (sin q * sin q) \<le>
      (1081 / 100000)\<^sup>2 + (1 - 2 * (2393 / 10000)\<^sup>2) * (1 - 2 * (2288 / 10000)\<^sup>2) * (1698 / 100000)\<^sup>2"
    by linarith
  also have "\<dots> \<le> (1889 / 100000)\<^sup>2"
    by (simp add: power_divide)
  finally have upper: "sin p * sin p + cos f1 * cos f2 * (sin q * sin q) \<le> (1889 / 100000)\<^sup>2" .
  have "(1 - (4836 / 10000)\<^sup>2 / 2) * (1 - (462 / 1000)\<^sup>2 / 2) * (16969 / 1000000)\<^sup>2 \<le>
      cos f1 * cos f2 * (sin q * sin q)"
    by (rule mult_mono [OF cc_lo sqq_lo cc_pos]) (simp add: power_divide)
  with spp_lo have "(10799 / 1000000)\<^sup>2 +
      (1 - (4836 / 10000)\<^sup>2 / 2) * (1 - (462 / 1000)\<^sup>2 / 2) * (16969 / 1000000)\<^sup>2 \<le>
      sin p * sin p + cos f1 * cos f2 * (sin q * sin q)"
    by linarith
  moreover have "(185 / 10000 :: real)\<^sup>2 \<le> (10799 / 1000000)\<^sup>2 +
      (1 - (4836 / 10000)\<^sup>2 / 2) * (1 - (462 / 1000)\<^sup>2 / 2) * (16969 / 1000000)\<^sup>2"
    by (simp add: power_divide)
  ultimately have lower: "(185 / 10000)\<^sup>2 \<le> sin p * sin p + cos f1 * cos f2 * (sin q * sin q)"
    by linarith
  from lower upper show ?thesis
    unfolding h by simp
qed

lemma arcsin_ge_self:
  assumes "0 \<le> s" "s \<le> 1"
  shows "s \<le> arcsin s"
proof -
  have "0 \<le> arcsin s" using assms by (intro arcsin_nonneg) simp
  then have "sin (arcsin s) \<le> arcsin s" by (rule sin_x_le_x)
  with assms show ?thesis by simp
qed

lemma kathmandu_biratnagar_distance:
  "\<exists>d. calculateDistance (Fin (138529 / 5000)) (Fin (213323 / 2500)) (Fin (16542 / 625))
       (Fin (109093 / 1250)) = Fin d \<and> 235 \<le> d \<and> d \<le> 241"
proof -
  define h where "h = hav (138529 / 5000) (213323 / 2500) (16542 / 625) (109093 / 1250)"
  have hb: "(185 / 10000)\<^sup>2 \<le> h" "h \<le> (1889 / 100000)\<^sup>2"
    using kathmandu_biratnagar_hav by (simp_all add: h_def)
  have h0: "0 \<le> h"
    using hb(1) by (rule order_trans [rotated]) simp
  have s_lo: "185 / 10000 \<le> sqrt h"
    using hb(1) by (rule real_le_rsqrt)
  have s_hi: "sqrt h \<le> 1889 / 100000"
    using hb(2) by (intro real_le_lsqrt) simp_all
  have s1: "sqrt h \<le> 1" using s_hi by linarith
  have "sqrt h \<le> arcsin (sqrt h)"
    using h0 s1 by (intro arcsin_ge_self) simp_all
  with s_lo have a_lo: "185 / 10000 \<le> arcsin (sqrt h)" by simp
  have "(1889 / 100000 :: real) \<le> 189 / 10000 - (189 / 10000) ^ 3 / 6"
    by (simp add: power_divide)
  also have "\<dots> \<le> sin (189 / 10000)"
    by (intro sin_lower_cubic) simp_all
  finally have "1889 / 100000 \<le> sin (189 / 10000 :: real)" .
  with s_hi have le_sin: "sqrt h \<le> sin (189 / 10000)" by linarith
  have m1: "sqrt h \<ge> - 1" using real_sqrt_ge_zero [OF h0] by linarith
  have y1: "(189 / 10000 :: real) \<ge> - pi / 2" and y2: "(189 / 10000 :: real) \<le> pi / 2"
    using pi_ge_two by simp_all
  have a_hi: "arcsin (sqrt h) \<le> 189 / 10000"
    by (rule arcsin_le_iff [THEN iffD2, OF m1 s1 y1 y2 le_sin])
  have "calculateDistance (Fin (138529 / 5000)) (Fin (213323 / 2500)) (Fin (16542 / 625))
       (Fin (109093 / 1250)) = Fin (6371 * (2 * arcsin (sqrt h)))"
    unfolding h_def using h0 [unfolded h_def] by (rule calculateDistance_arcsin)
  moreover have "235 \<le> 6371 * (2 * arcsin (sqrt h))" "6371 * (2 * arcsin (sqrt h)) \<le> 241"
    using a_lo a_hi by simp_all
  ultimately show ?thesis by blast
qed

text \<open>
  Claim C8, as the code has it. The distance that \<^verbatim>\<open>calculateDistance\<close> gives from
  Kathmandu (27.7058, 85.3292) to Biratnagar (26.4672, 87.2744) is within 5 km of 237 km:
  it lies between 232 and 242 km (indeed between 235 and 241).
\<close>

theorem kathmandu_biratnagar_237:
  "Fin 232 \<le> calculateDistance (Fin 27.7058) (Fin 85.3292) (Fin 26.4672) (Fin 87.2744) \<and>
   calculateDistance (Fin 27.7058) (Fin 85.3292) (Fin 26.4672) (Fin 87.2744) \<le> Fin 242"
  using kathmandu_biratnagar_distance by (auto simp: less_eq_number_def)

text \<open>The claim as stated, a value between 278 and 288 km, fails.\<close>

theorem kathmandu_biratnagar_283_counterexample:
  "\<not> (Fin 278 \<le> calculateDistance (Fin 27.7058) (Fin 85.3292) (Fin 26.4672) (Fin 87.2744) \<and>
      calculateDistance (Fin 27.7058) (Fin 85.3292) (Fin 26.4672) (Fin 87.2744) \<le> Fin 288)"
  using kathmandu_biratnagar_distance by (auto simp: less_eq_number_def)


section \<open>The display of a distance\<close>





lemma round64_tie: "round64 (45 / 10000) = 5188146770730811 / 2 ^ 60"
proof -
  have "round64 (45 / 10000) = of_int (round_half_even (45 / 10000 * 2 ^ 60)) / 2 ^ 60"
    by (rule round64_scaled) simp_all
  moreover have "round_half_even (45 / 10000 * 2 ^ 60) = 5188146770730811"
    by (simp add: round_half_even_def Let_def)
  ultimately show ?thesis by simp
qed

lemma round64_tie_product: "round64 (5188146770730811 / 2 ^ 60 * 1000) = 45 / 10"
proof -
  have "round64 (5188146770730811 / 2 ^ 60 * 1000) =
      of_int (round_half_even (5188146770730811 / 2 ^ 60 * 1000 * 2 ^ 50)) / 2 ^ 50"
    by (rule round64_scaled) simp_all
  moreover have "round_half_even (5188146770730811 / 2 ^ 60 * 1000 * 2 ^ 50) = 5066549580791808"
    by (simp add: round_half_even_def Let_def)
  ultimately show ?thesis by simp
qed

lemma nat_digits_nonempty: "nat_digits n \<noteq> []"
  by (subst nat_digits.simps) simp

lemma fixed_digits_one:
  "fixed_digits n 1 = nat_digits (n div 10) @ ''.'' @ [digit_char (n mod 10)]"
proof (cases "n < 10")
  case True
  then have "nat_digits n = [digit_char n]" "nat_digits (n div 10) = ''0''"
    by (simp_all add: nat_digits.simps digit_char_def)
  with True show ?thesis
    by (simp add: fixed_digits_def)
next
  case False
  then have split: "nat_digits n = nat_digits (n div 10) @ [digit_char (n mod 10)]"
    by (subst nat_digits.simps) simp
  obtain c cs where nd: "nat_digits (n div 10) = c # cs"
    using nat_digits_nonempty [of "n div 10"] by (cases "nat_digits (n div 10)") simp_all
  show ?thesis
    by (simp add: fixed_digits_def split nd)
qed

lemma formatDistance_km_range:
  assumes "1 \<le> r" "r < 10 ^ 21"
  shows "formatDistance (Fin r) = one_decimal r @ ''km''"
proof -
  have "Fin 1 \<le> Fin r" using assms by (auto simp: less_eq_number_def)
  moreover have "\<not> 10 ^ 21 \<le> \<bar>r\<bar>" "\<not> r < 0" "\<bar>r\<bar> = r" using assms by simp_all
  ultimately show ?thesis
    by (simp add: formatDistance_def toFixed_def one_decimal_def
        fixed_digits_one [unfolded One_nat_def] Let_def)
qed

lemma formatDistance_m_range:
  assumes "- (10 ^ 17) < r" "r < 1"
  shows "formatDistance (Fin r) = nearest_integer (round64 (r * 1000)) @ ''m''"
proof -
  have r: "\<bar>r\<bar> < 10 ^ 17" using assms by (simp add: abs_if)
  have "\<not> Fin 1 \<le> Fin r" using assms by (simp add: less_eq_number_def)
  moreover have "times64 (Fin r) (Fin 1000) = Fin (round64 (r * 1000))"
    using r by (intro times64_1000) simp
  moreover have "\<bar>round64 (r * 1000)\<bar> \<le> 2 * \<bar>r * 1000\<bar> + 1"
    by (rule round64_bound)
  then have "\<not> 10 ^ 21 \<le> \<bar>round64 (r * 1000)\<bar>" using r by (simp add: abs_mult)
  ultimately show ?thesis
    by (simp add: formatDistance_def toFixed_def nearest_integer_def fixed_digits_def Let_def)
qed


text \<open>
  The rounding of the product shows in the result. The binary64 value of \<^verbatim>\<open>0.0045\<close> is
  a little less than 0.0045, so that the nearest integer to its thousandfold is 4; the
  product as binary64 has it is 4.5, and \<^verbatim>\<open>toFixed(0)\<close> writes the larger of the two
  nearest integers.
\<close>

lemma formatDistance_tie:
  "formatDistance (binary64 0.0045) = ''5m''"
  "nearest_integer (5188146770730811 / 2 ^ 60 * 1000) = ''4''"
proof -
  have "binary64 0.0045 = Fin (5188146770730811 / 2 ^ 60)"
    using round64_tie by (simp add: binary64_def)
  moreover have "times64 (Fin (5188146770730811 / 2 ^ 60)) (Fin 1000) = Fin (45 / 10)"
    using round64_tie_product by (simp add: binary64_def)
  ultimately show "formatDistance (binary64 0.0045) = ''5m''"
    by (simp add: formatDistance_def less_eq_number_def toFixed_def fixed_digits_def
        nat_digits.simps digit_char_def)
  show "nearest_integer (5188146770730811 / 2 ^ 60 * 1000) = ''4''"
    by (simp add: nearest_integer_def nat_digits.simps digit_char_def)
qed



section \<open>The display of the distances that are computed\<close>

lemma atan2_quadrant: "0 \<le> y \<Longrightarrow> 0 \<le> x \<Longrightarrow> atan2 y x \<le> pi / 2"
  using arctan_ubound [of "y / x"] by (simp add: atan2_def less_imp_le)

lemma calculateDistance_range:
  "calculateDistance lat1 lon1 lat2 lon2 = NaN \<or>
   (\<exists>d. calculateDistance lat1 lon1 lat2 lon2 = Fin d \<and> 0 \<le> d \<and> d \<le> 6371 * pi)"
proof (cases "\<exists>a b c d. lat1 = Fin a \<and> lon1 = Fin b \<and> lat2 = Fin c \<and> lon2 = Fin d")
  case True
  then obtain a b c d where f: "lat1 = Fin a" "lon1 = Fin b" "lat2 = Fin c" "lon2 = Fin d"
    by blast
  define h where "h = hav a b c d"
  show ?thesis
  proof (cases "h < 0 \<or> 1 < h")
    case True
    then show ?thesis by (simp add: f calculateDistance_Fin h_def)
  next
    case False
    then have "0 \<le> atan2 (sqrt h) (sqrt (1 - h))"
      by (intro atan2_nonneg) simp_all
    moreover from False have "atan2 (sqrt h) (sqrt (1 - h)) \<le> pi / 2"
      by (intro atan2_quadrant) simp_all
    ultimately have "0 \<le> 6371 * (2 * atan2 (sqrt h) (sqrt (1 - h)))"
        "6371 * (2 * atan2 (sqrt h) (sqrt (1 - h))) \<le> 6371 * pi"
      by simp_all
    with False show ?thesis
      by (simp only: f calculateDistance_Fin h_def [symmetric]) simp
  qed
next
  case False
  then show ?thesis by (simp add: calculateDistance_not_Fin)
qed


text \<open>
  The distances of the pipeline are within the range in which the display is the plain
  decimal one.
\<close>

lemma formatDistance_calculateDistance:
  "formatDistance (calculateDistance lat1 lon1 lat2 lon2) =
     (case calculateDistance lat1 lon1 lat2 lon2 of
        Fin d \<Rightarrow>
          if 1 \<le> d then one_decimal d @ ''km'' else nearest_integer (round64 (d * 1000)) @ ''m''
      | _ \<Rightarrow> ''NaNm'')"
proof -
  from calculateDistance_range [of lat1 lon1 lat2 lon2] show ?thesis
  proof
    assume "calculateDistance lat1 lon1 lat2 lon2 = NaN"
    then show ?thesis
      by (simp add: formatDistance_def less_eq_number_def toFixed_def)
  next
    assume "\<exists>d. calculateDistance lat1 lon1 lat2 lon2 = Fin d \<and> 0 \<le> d \<and> d \<le> 6371 * pi"
    then obtain d where d: "calculateDistance lat1 lon1 lat2 lon2 = Fin d" "0 \<le> d" "d \<le> 6371 * pi"
      by blast
    have "6371 * pi < 10 ^ 21" using pi_upper by simp
    with d have "d < 10 ^ 21" "- (10 ^ 17) < d" by simp_all
    then show ?thesis
      unfolding d(1) by (simp add: formatDistance_km_range formatDistance_m_range)
  qed
qed

section \<open>The distance in binary64, between antipodal points\<close>

lemma binary64_scaled:
  assumes "2 ^ 52 \<le> \<bar>x\<bar> * 2 ^ n" "\<bar>x\<bar> * 2 ^ n < 2 ^ 53" "n \<le> 1074"
    "round_half_even (x * 2 ^ n) = m"
  shows "binary64 x = Fin (of_int m / 2 ^ n)"
proof -
  have r: "round64 x = of_int m / 2 ^ n"
    using round64_scaled [OF assms(1-3)] assms(4) by simp
  have "\<bar>x\<bar> * 1 \<le> \<bar>x\<bar> * 2 ^ n"
    by (intro mult_left_mono) simp_all
  with assms(2) have "\<bar>x\<bar> < 2 ^ 53" by simp
  with round64_bound [of x] have "\<bar>round64 x\<bar> \<le> 2 * 2 ^ 53 + 1" by linarith
  moreover have "(2 * 2 ^ 53 + 1 :: real) < 2 ^ 1024" by simp
  ultimately have "\<not> 2 ^ 1024 \<le> \<bar>round64 x\<bar>" by linarith
  then show ?thesis
    by (simp add: binary64_def Let_def r)
qed

lemma Math_atan2_NaN: "Math_atan2 a NaN = NaN"
  by (cases a) simp_all

text \<open>
  The operations of \<^verbatim>\<open>calculateDistance\<close> between \<open>(12, 0)\<close> and \<open>(-12, 180)\<close>, in
  either direction, one by one.
\<close>

lemma antipodal_step1: "minus64 (Fin (- 12)) (Fin 12) = Fin (- 24)"
  using binary64_scaled [of "(- 12) - 12" 48 "- 6755399441055744"]
  by (simp add: plus64_def minus64_def divide64_def r64_def minus_number_def Math_PI64_def
      round_half_even_def Let_def)

lemma antipodal_step2: "times64 (Fin (- 24)) Math_PI64 = Fin (- (2652839157010665 / 2 ^ 45))"
  using binary64_scaled [of "(- 24) * (884279719003555 / 2 ^ 48)" 46 "- 5305678314021330"]
  by (simp add: plus64_def minus64_def divide64_def r64_def minus_number_def Math_PI64_def
      round_half_even_def Let_def)

lemma antipodal_step3: "divide64 (Fin (- (2652839157010665 / 2 ^ 45))) (Fin 180) = Fin (- (7545853602163669 / 2 ^ 54))"
  using binary64_scaled [of "(- (2652839157010665 / 2 ^ 45)) / 180" 54 "- 7545853602163669"]
  by (simp add: plus64_def minus64_def divide64_def r64_def minus_number_def Math_PI64_def
      round_half_even_def Let_def)

lemma antipodal_step4: "divide64 (Fin (- (7545853602163669 / 2 ^ 54))) (Fin 2) = Fin (- (7545853602163669 / 2 ^ 55))"
  using binary64_scaled [of "(- (7545853602163669 / 2 ^ 54)) / 2" 55 "- 7545853602163669"]
  by (simp add: plus64_def minus64_def divide64_def r64_def minus_number_def Math_PI64_def
      round_half_even_def Let_def)

lemma antipodal_step5: "minus64 (Fin 180) (Fin 0) = Fin 180"
  using binary64_scaled [of "180 - 0" 45 "6333186975989760"]
  by (simp add: plus64_def minus64_def divide64_def r64_def minus_number_def Math_PI64_def
      round_half_even_def Let_def)

lemma antipodal_step6: "times64 (Fin 180) Math_PI64 = Fin (4974073419394997 / 2 ^ 43)"
  using binary64_scaled [of "180 * (884279719003555 / 2 ^ 48)" 43 "4974073419394997"]
  by (simp add: plus64_def minus64_def divide64_def r64_def minus_number_def Math_PI64_def
      round_half_even_def Let_def)

lemma antipodal_step7: "divide64 (Fin (4974073419394997 / 2 ^ 43)) (Fin 180) = Fin (884279719003555 / 2 ^ 48)"
  using binary64_scaled [of "(4974073419394997 / 2 ^ 43) / 180" 51 "7074237752028440"]
  by (simp add: plus64_def minus64_def divide64_def r64_def minus_number_def Math_PI64_def
      round_half_even_def Let_def)

lemma antipodal_step8: "divide64 (Fin (884279719003555 / 2 ^ 48)) (Fin 2) = Fin (884279719003555 / 2 ^ 49)"
  using binary64_scaled [of "(884279719003555 / 2 ^ 48) / 2" 52 "7074237752028440"]
  by (simp add: plus64_def minus64_def divide64_def r64_def minus_number_def Math_PI64_def
      round_half_even_def Let_def)

lemma antipodal_step9: "times64 (Fin 12) Math_PI64 = Fin (2652839157010665 / 2 ^ 46)"
  using binary64_scaled [of "12 * (884279719003555 / 2 ^ 48)" 47 "5305678314021330"]
  by (simp add: plus64_def minus64_def divide64_def r64_def minus_number_def Math_PI64_def
      round_half_even_def Let_def)

lemma antipodal_step10: "divide64 (Fin (2652839157010665 / 2 ^ 46)) (Fin 180) = Fin (7545853602163669 / 2 ^ 55)"
  using binary64_scaled [of "(2652839157010665 / 2 ^ 46) / 180" 55 "7545853602163669"]
  by (simp add: plus64_def minus64_def divide64_def r64_def minus_number_def Math_PI64_def
      round_half_even_def Let_def)

lemma antipodal_step11: "times64 (Fin (- 12)) Math_PI64 = Fin (- (2652839157010665 / 2 ^ 46))"
  using binary64_scaled [of "(- 12) * (884279719003555 / 2 ^ 48)" 47 "- 5305678314021330"]
  by (simp add: plus64_def minus64_def divide64_def r64_def minus_number_def Math_PI64_def
      round_half_even_def Let_def)

lemma antipodal_step12: "divide64 (Fin (- (2652839157010665 / 2 ^ 46))) (Fin 180) = Fin (- (7545853602163669 / 2 ^ 55))"
  using binary64_scaled [of "(- (2652839157010665 / 2 ^ 46)) / 180" 55 "- 7545853602163669"]
  by (simp add: plus64_def minus64_def divide64_def r64_def minus_number_def Math_PI64_def
      round_half_even_def Let_def)

lemma antipodal_step13: "times64 (Fin (- (7490808106342645 / 2 ^ 55))) (Fin (- (7490808106342645 / 2 ^ 55))) = Fin (6229706315924309 / 2 ^ 57)"
  using binary64_scaled [of "(- (7490808106342645 / 2 ^ 55)) * (- (7490808106342645 / 2 ^ 55))" 57 "6229706315924309"]
  by (simp add: plus64_def minus64_def divide64_def r64_def minus_number_def Math_PI64_def
      round_half_even_def Let_def)

lemma antipodal_step14: "times64 (Fin (68831018284033 / 2 ^ 46)) (Fin (68831018284033 / 2 ^ 46)) = Fin (2154460652498931 / 2 ^ 51)"
  using binary64_scaled [of "(68831018284033 / 2 ^ 46) * (68831018284033 / 2 ^ 46)" 53 "8617842609995724"]
  by (simp add: plus64_def minus64_def divide64_def r64_def minus_number_def Math_PI64_def
      round_half_even_def Let_def)

lemma antipodal_step15: "times64 (Fin (2154460652498931 / 2 ^ 51)) (Fin 1) = Fin (2154460652498931 / 2 ^ 51)"
  using binary64_scaled [of "(2154460652498931 / 2 ^ 51) * 1" 53 "8617842609995724"]
  by (simp add: plus64_def minus64_def divide64_def r64_def minus_number_def Math_PI64_def
      round_half_even_def Let_def)

lemma antipodal_step16: "plus64 (Fin (6229706315924309 / 2 ^ 57)) (Fin (2154460652498931 / 2 ^ 51)) = Fin (4503599627370497 / 2 ^ 52)"
  using binary64_scaled [of "(6229706315924309 / 2 ^ 57) + (2154460652498931 / 2 ^ 51)" 52 "4503599627370497"]
  by (simp add: plus64_def minus64_def divide64_def r64_def minus_number_def Math_PI64_def
      round_half_even_def Let_def)

lemma antipodal_step17: "minus64 (Fin 1) (Fin (4503599627370497 / 2 ^ 52)) = Fin (- (1 / 2 ^ 52))"
  using binary64_scaled [of "1 - (4503599627370497 / 2 ^ 52)" 104 "- 4503599627370496"]
  by (simp add: plus64_def minus64_def divide64_def r64_def minus_number_def Math_PI64_def
      round_half_even_def Let_def)

lemma antipodal_step18: "minus64 (Fin 12) (Fin (- 12)) = Fin 24"
  using binary64_scaled [of "12 - (- 12)" 48 "6755399441055744"]
  by (simp add: plus64_def minus64_def divide64_def r64_def minus_number_def Math_PI64_def
      round_half_even_def Let_def)

lemma antipodal_step19: "times64 (Fin 24) Math_PI64 = Fin (2652839157010665 / 2 ^ 45)"
  using binary64_scaled [of "24 * (884279719003555 / 2 ^ 48)" 46 "5305678314021330"]
  by (simp add: plus64_def minus64_def divide64_def r64_def minus_number_def Math_PI64_def
      round_half_even_def Let_def)

lemma antipodal_step20: "divide64 (Fin (2652839157010665 / 2 ^ 45)) (Fin 180) = Fin (7545853602163669 / 2 ^ 54)"
  using binary64_scaled [of "(2652839157010665 / 2 ^ 45) / 180" 54 "7545853602163669"]
  by (simp add: plus64_def minus64_def divide64_def r64_def minus_number_def Math_PI64_def
      round_half_even_def Let_def)

lemma antipodal_step21: "divide64 (Fin (7545853602163669 / 2 ^ 54)) (Fin 2) = Fin (7545853602163669 / 2 ^ 55)"
  using binary64_scaled [of "(7545853602163669 / 2 ^ 54) / 2" 55 "7545853602163669"]
  by (simp add: plus64_def minus64_def divide64_def r64_def minus_number_def Math_PI64_def
      round_half_even_def Let_def)

lemma antipodal_step22: "minus64 (Fin 0) (Fin 180) = Fin (- 180)"
  using binary64_scaled [of "0 - 180" 45 "- 6333186975989760"]
  by (simp add: plus64_def minus64_def divide64_def r64_def minus_number_def Math_PI64_def
      round_half_even_def Let_def)

lemma antipodal_step23: "times64 (Fin (- 180)) Math_PI64 = Fin (- (4974073419394997 / 2 ^ 43))"
  using binary64_scaled [of "(- 180) * (884279719003555 / 2 ^ 48)" 43 "- 4974073419394997"]
  by (simp add: plus64_def minus64_def divide64_def r64_def minus_number_def Math_PI64_def
      round_half_even_def Let_def)

lemma antipodal_step24: "divide64 (Fin (- (4974073419394997 / 2 ^ 43))) (Fin 180) = Fin (- (884279719003555 / 2 ^ 48))"
  using binary64_scaled [of "(- (4974073419394997 / 2 ^ 43)) / 180" 51 "- 7074237752028440"]
  by (simp add: plus64_def minus64_def divide64_def r64_def minus_number_def Math_PI64_def
      round_half_even_def Let_def)

lemma antipodal_step25: "divide64 (Fin (- (884279719003555 / 2 ^ 48))) (Fin 2) = Fin (- (884279719003555 / 2 ^ 49))"
  using binary64_scaled [of "(- (884279719003555 / 2 ^ 48)) / 2" 52 "- 7074237752028440"]
  by (simp add: plus64_def minus64_def divide64_def r64_def minus_number_def Math_PI64_def
      round_half_even_def Let_def)

lemma antipodal_step26: "times64 (Fin (7490808106342645 / 2 ^ 55)) (Fin (7490808106342645 / 2 ^ 55)) = Fin (6229706315924309 / 2 ^ 57)"
  using binary64_scaled [of "(7490808106342645 / 2 ^ 55) * (7490808106342645 / 2 ^ 55)" 57 "6229706315924309"]
  by (simp add: plus64_def minus64_def divide64_def r64_def minus_number_def Math_PI64_def
      round_half_even_def Let_def)

lemma antipodal_step27: "times64 (Fin (2154460652498931 / 2 ^ 51)) (Fin (- 1)) = Fin (- (2154460652498931 / 2 ^ 51))"
  using binary64_scaled [of "(2154460652498931 / 2 ^ 51) * (- 1)" 53 "- 8617842609995724"]
  by (simp add: plus64_def minus64_def divide64_def r64_def minus_number_def Math_PI64_def
      round_half_even_def Let_def)

lemma antipodal_step28: "times64 (Fin (- (2154460652498931 / 2 ^ 51))) (Fin (- 1)) = Fin (2154460652498931 / 2 ^ 51)"
  using binary64_scaled [of "(- (2154460652498931 / 2 ^ 51)) * (- 1)" 53 "8617842609995724"]
  by (simp add: plus64_def minus64_def divide64_def r64_def minus_number_def Math_PI64_def
      round_half_even_def Let_def)

lemmas antipodal_steps =
  antipodal_step1 antipodal_step2 antipodal_step3 antipodal_step4 antipodal_step5 antipodal_step6
  antipodal_step7 antipodal_step8 antipodal_step9 antipodal_step10 antipodal_step11 antipodal_step12
  antipodal_step13 antipodal_step14 antipodal_step15 antipodal_step16 antipodal_step17 antipodal_step18
  antipodal_step19 antipodal_step20 antipodal_step21 antipodal_step22 antipodal_step23 antipodal_step24
  antipodal_step25 antipodal_step26 antipodal_step27 antipodal_step28

lemma antipodal_forward:
  assumes "sin64 (- (7545853602163669 / 2 ^ 55)) = (- (7490808106342645 / 2 ^ 55))"
    and "sin64 (884279719003555 / 2 ^ 49) = 1"
    and "cos64 (7545853602163669 / 2 ^ 55) = (68831018284033 / 2 ^ 46)"
    and "cos64 (- (7545853602163669 / 2 ^ 55)) = (68831018284033 / 2 ^ 46)"
  shows "calculateDistance_binary64 sin64 cos64 (Fin 12) (Fin 0) (Fin (- 12)) (Fin 180) = NaN"
proof -
  have "calculateDistance_binary64 sin64 cos64 (Fin 12) (Fin 0) (Fin (- 12)) (Fin 180) =
      times64 (Fin 6371) (times64 (Fin 2)
        (Math_atan2_64 (Math_sqrt64 (Fin (4503599627370497 / 2 ^ 52))) (Math_sqrt64 (Fin (- (1 / 2 ^ 52))))))"
    unfolding calculateDistance_binary64_def Let_def
    by (simp only: antipodal_steps Math_fun64_def number.case assms)
  then show ?thesis
    by (simp add: Math_sqrt64_def Math_atan2_64_def r64_def Math_atan2_NaN)
qed

lemma antipodal_backward:
  assumes "sin64 (7545853602163669 / 2 ^ 55) = (7490808106342645 / 2 ^ 55)"
    and "sin64 (- (884279719003555 / 2 ^ 49)) = (- 1)"
    and "cos64 (7545853602163669 / 2 ^ 55) = (68831018284033 / 2 ^ 46)"
    and "cos64 (- (7545853602163669 / 2 ^ 55)) = (68831018284033 / 2 ^ 46)"
  shows "calculateDistance_binary64 sin64 cos64 (Fin (- 12)) (Fin 180) (Fin 12) (Fin 0) = NaN"
proof -
  have "calculateDistance_binary64 sin64 cos64 (Fin (- 12)) (Fin 180) (Fin 12) (Fin 0) =
      times64 (Fin 6371) (times64 (Fin 2)
        (Math_atan2_64 (Math_sqrt64 (Fin (4503599627370497 / 2 ^ 52))) (Math_sqrt64 (Fin (- (1 / 2 ^ 52))))))"
    unfolding calculateDistance_binary64_def Let_def
    by (simp only: antipodal_steps Math_fun64_def number.case assms)
  then show ?thesis
    by (simp add: Math_sqrt64_def Math_atan2_64_def r64_def Math_atan2_NaN)
qed

lemmas sample_defs = v8_values_def angle12_def half_pi64_def sin12_def cos12_def

subsection \<open>The correctly rounded sine and cosine have these values\<close>

text \<open>
  The values of V8 at the arguments that occur are the correctly rounded ones: the exact
  sine and cosine lie within half a unit in the last place of them, by Taylor's theorem.
\<close>

lemma sum_below_16:
  "(\<Sum>m<16. f m) = f 0 + f 1 + f 2 + f 3 + f 4 + f 5 + f 6 + f 7 + f 8 + f 9 + f 10 + f 11 +
     f 12 + f 13 + f 14 + f (15::nat)" for f :: "nat \<Rightarrow> real"
  by (simp add: lessThan_nat_numeral lessThan_Suc)

lemma sin_coeff_values16:
  "sin_coeff 8 = 0" "sin_coeff 9 = 1 / 362880" "sin_coeff 10 = 0" "sin_coeff 11 = - 1 / 39916800"
  "sin_coeff 12 = 0" "sin_coeff 13 = 1 / 6227020800" "sin_coeff 14 = 0"
  "sin_coeff 15 = - 1 / 1307674368000"
  by (simp_all add: sin_coeff_def fact_numeral)

lemma cos_coeff_values16:
  "cos_coeff 1 = 0" "cos_coeff 2 = - 1 / 2" "cos_coeff 3 = 0" "cos_coeff 4 = 1 / 24"
  "cos_coeff 5 = 0" "cos_coeff 6 = - 1 / 720" "cos_coeff 7 = 0" "cos_coeff 8 = 1 / 40320"
  "cos_coeff 9 = 0" "cos_coeff 10 = - 1 / 3628800" "cos_coeff 11 = 0"
  "cos_coeff 12 = 1 / 479001600" "cos_coeff 13 = 0" "cos_coeff 14 = - 1 / 87178291200"
  "cos_coeff 15 = 0"
  by (simp_all add: cos_coeff_def fact_numeral)

lemma sin_poly16: "(\<Sum>m<16. sin_coeff m * x ^ m) = sin_poly x"
  unfolding sin_poly_def
  by (simp only: sum_below_16 sin_coeff_values sin_coeff_values16 sin_coeff_0 power_one_right
      mult_zero_left add_0_left add_0_right mult_1)

lemma cos_poly16: "(\<Sum>m<16. cos_coeff m * x ^ m) = cos_poly x"
  unfolding cos_poly_def
  by (simp only: sum_below_16 cos_coeff_values16 cos_coeff_0 power_0 mult_1
      mult_zero_left add_0_left add_0_right)

lemma fact_16: "fact 16 = (20922789888000 :: real)"
  by (simp add: fact_numeral)

lemma sin_approx16: "\<bar>sin x - sin_poly x\<bar> \<le> \<bar>x\<bar> ^ 16 / 20922789888000"
  using Maclaurin_sin_bound [of x 16] by (simp only: sin_poly16 fact_16 divide_inverse mult.commute)

lemma cos_approx16: "\<bar>cos x - cos_poly x\<bar> \<le> \<bar>x\<bar> ^ 16 / 20922789888000"
proof -
  obtain t where "cos x = (\<Sum>m<16. cos_coeff m * x ^ m) + (cos (t + 1/2 * real 16 * pi) / fact 16) * x ^ 16"
    using Maclaurin_cos_expansion [of x 16] by blast
  then have "cos x - cos_poly x = (cos (t + 1/2 * real 16 * pi) / 20922789888000) * x ^ 16"
    by (simp only: cos_poly16 fact_16)
  then have "\<bar>cos x - cos_poly x\<bar> = \<bar>(cos (t + 1/2 * real 16 * pi) / 20922789888000) * x ^ 16\<bar>"
    by (simp only:)
  also have "\<dots> = \<bar>cos (t + 1/2 * real 16 * pi)\<bar> * (\<bar>x\<bar> ^ 16 / 20922789888000)"
    by (simp add: abs_mult power_abs)
  also have "\<dots> \<le> 1 * (\<bar>x\<bar> ^ 16 / 20922789888000)"
    by (rule mult_right_mono) simp_all
  finally show ?thesis by simp
qed

lemma sin_between:
  "sin_poly x - \<bar>x\<bar> ^ 16 / 20922789888000 \<le> sin x"
  "sin x \<le> sin_poly x + \<bar>x\<bar> ^ 16 / 20922789888000"
  using sin_approx16 [of x] by linarith+

lemma cos_between:
  "cos_poly x - \<bar>x\<bar> ^ 16 / 20922789888000 \<le> cos x"
  "cos x \<le> cos_poly x + \<bar>x\<bar> ^ 16 / 20922789888000"
  using cos_approx16 [of x] by linarith+

lemma round_half_even_near:
  assumes "of_int m - 1 / 2 < y" "y < of_int m + 1 / 2"
  shows "round_half_even y = m"
proof -
  have "\<bar>of_int (round_half_even y) - y\<bar> \<le> 1 / 2" by (rule round_half_even_close)
  with assms have "\<bar>(of_int (round_half_even y) :: real) - of_int m\<bar> < 1" by linarith
  then have "\<bar>round_half_even y - m\<bar> < 1"
    by (metis of_int_abs of_int_diff of_int_less_1_iff)
  then show ?thesis by simp
qed

lemma sin_angle12:
  "7490808106342645 - 1 / 2 < sin angle12 * 2 ^ 55" "sin angle12 * 2 ^ 55 < 7490808106342645 + 1 / 2"
proof -
  have "(7490808106342645 - 1 / 2) / 2 ^ 55 < sin_poly angle12 - \<bar>angle12\<bar> ^ 16 / 20922789888000"
    by (simp add: sin_poly_def angle12_def power_divide)
  also have "\<dots> \<le> sin angle12" by (rule sin_between)
  finally show "7490808106342645 - 1 / 2 < sin angle12 * 2 ^ 55" by (simp add: field_simps)
  have "sin angle12 \<le> sin_poly angle12 + \<bar>angle12\<bar> ^ 16 / 20922789888000" by (rule sin_between)
  also have "\<dots> < (7490808106342645 + 1 / 2) / 2 ^ 55"
    by (simp add: sin_poly_def angle12_def power_divide)
  finally show "sin angle12 * 2 ^ 55 < 7490808106342645 + 1 / 2" by (simp add: field_simps)
qed


lemma cos_angle12:
  "8810370340356224 - 1 / 2 < cos angle12 * 2 ^ 53" "cos angle12 * 2 ^ 53 < 8810370340356224 + 1 / 2"
proof -
  have "(8810370340356224 - 1 / 2) / 2 ^ 53 < cos_poly angle12 - \<bar>angle12\<bar> ^ 16 / 20922789888000"
    by (simp add: cos_poly_def angle12_def power_divide)
  also have "\<dots> \<le> cos angle12" by (rule cos_between)
  finally show "8810370340356224 - 1 / 2 < cos angle12 * 2 ^ 53" by (simp add: field_simps)
  have "cos angle12 \<le> cos_poly angle12 + \<bar>angle12\<bar> ^ 16 / 20922789888000" by (rule cos_between)
  also have "\<dots> < (8810370340356224 + 1 / 2) / 2 ^ 53"
    by (simp add: cos_poly_def angle12_def power_divide)
  finally show "cos angle12 * 2 ^ 53 < 8810370340356224 + 1 / 2" by (simp add: field_simps)
qed

lemma pi_upper9: "pi < 3.1415926542"
proof -
  have "(1 / 2 :: real) < sin_poly (5235987757 / 10000000000) -
      \<bar>5235987757 / 10000000000\<bar> ^ 16 / 20922789888000"
    by (simp add: sin_poly_def power_divide)
  also have "\<dots> \<le> sin (5235987757 / 10000000000)" by (rule sin_between)
  finally have "sin (pi / 6) < sin (5235987757 / 10000000000 :: real)"
    by (simp add: sin_30)
  moreover have "5235987757 / 10000000000 \<le> pi / 2" "- (pi / 2) \<le> pi / 6" "pi / 6 \<le> pi / 2"
      "- (pi / 2) \<le> (5235987757 / 10000000000 :: real)"
    using pi_ge_two by simp_all
  ultimately have "pi / 6 < 5235987757 / 10000000000"
    using sin_mono_less_eq [of "pi / 6" "5235987757 / 10000000000"] by simp
  then show ?thesis by simp
qed

lemma pi_lower9: "3.141592653 < pi"
proof -
  have "sin (5235987755 / 10000000000 :: real) \<le> sin_poly (5235987755 / 10000000000) +
      \<bar>5235987755 / 10000000000\<bar> ^ 16 / 20922789888000"
    by (rule sin_between)
  also have "\<dots> < 1 / 2"
    by (simp add: sin_poly_def power_divide)
  finally have "sin (5235987755 / 10000000000 :: real) < sin (pi / 6)"
    by (simp add: sin_30)
  moreover have "5235987755 / 10000000000 \<le> pi / 2" "- (pi / 2) \<le> pi / 6" "pi / 6 \<le> pi / 2"
      "- (pi / 2) \<le> (5235987755 / 10000000000 :: real)"
    using pi_ge_two by simp_all
  ultimately have "5235987755 / 10000000000 < pi / 6"
    using sin_mono_less_eq [of "5235987755 / 10000000000" "pi / 6"] by simp
  then show ?thesis by simp
qed

lemma sin_half_pi64: "1 - 1 / 2 ^ 54 < sin half_pi64" "sin half_pi64 \<le> 1"
proof -
  define d where "d = pi / 2 - half_pi64"
  have "3141592653 < pi * 1000000000" "pi * 10000000000 < 31415926542"
    using pi_lower9 pi_upper9 by simp_all
  then have "\<bar>pi / 2 - 884279719003555 / 562949953421312\<bar> \<le> 1 / 268435456"
    by linarith
  then have d: "\<bar>d\<bar> \<le> 1 / 2 ^ 28"
    by (simp add: d_def half_pi64_def)
  have "d\<^sup>2 = \<bar>d\<bar> * \<bar>d\<bar>" by (simp add: power2_eq_square)
  also have "\<dots> \<le> (1 / 2 ^ 28) * (1 / 2 ^ 28)"
    by (rule mult_mono [OF d d]) simp_all
  finally have "d\<^sup>2 \<le> 1 / 2 ^ 56" by simp
  moreover have "1 - d\<^sup>2 / 2 \<le> cos d"
  proof -
    have "\<bar>sin (d / 2)\<bar> \<le> \<bar>d / 2\<bar>" by (rule abs_sin_x_le_abs_x)
    then have "(sin (d / 2))\<^sup>2 \<le> (d / 2)\<^sup>2" by (simp only: abs_le_square_iff)
    moreover have "cos d = 1 - 2 * (sin (d / 2))\<^sup>2"
      using cos_double_sin [of "d / 2"] by simp
    ultimately show ?thesis by (simp add: power_divide)
  qed
  moreover have "sin half_pi64 = cos d"
    by (simp add: d_def sin_cos_eq)
  ultimately show "1 - 1 / 2 ^ 54 < sin half_pi64" by simp
  show "sin half_pi64 \<le> 1" by simp
qed


lemma round64_unit:
  assumes "1 - 1 / 2 ^ 54 < y" "y \<le> 1"
  shows "round64 y = 1"
proof (cases "y = 1")
  case True
  have "round64 1 = of_int (round_half_even (1 * 2 ^ 52)) / 2 ^ 52"
    by (rule round64_scaled) simp_all
  moreover have "round_half_even (1 * 2 ^ 52) = 2 ^ 52"
    by (rule round_half_even_near) simp_all
  ultimately show ?thesis using True by simp
next
  case False
  with assms have y: "y < 1" "0 < y" "1 / 2 \<le> y" by simp_all
  have "round64 y = of_int (round_half_even (y * 2 ^ 53)) / 2 ^ 53"
    using y by (intro round64_scaled) simp_all
  moreover have "round_half_even (y * 2 ^ 53) = 2 ^ 53"
    using assms y by (intro round_half_even_near) (simp_all add: field_simps)
  ultimately show ?thesis by simp
qed

lemma round64_neg_unit:
  assumes "1 - 1 / 2 ^ 54 < y" "y \<le> 1"
  shows "round64 (- y) = - 1"
proof (cases "y = 1")
  case True
  have "round64 (- 1) = of_int (round_half_even (- 1 * 2 ^ 52)) / 2 ^ 52"
    by (rule round64_scaled) simp_all
  moreover have "round_half_even (- 1 * 2 ^ 52) = - (2 ^ 52)"
    by (rule round_half_even_near) simp_all
  ultimately show ?thesis using True by simp
next
  case False
  with assms have y: "y < 1" "0 < y" "1 / 2 \<le> y" by simp_all
  have "round64 (- y) = of_int (round_half_even (- y * 2 ^ 53)) / 2 ^ 53"
    using y by (intro round64_scaled) simp_all
  moreover have "round_half_even (- y * 2 ^ 53) = - (2 ^ 53)"
    using assms y by (intro round_half_even_near) (simp_all add: field_simps)
  ultimately show ?thesis by simp
qed

lemma v8_values_rounded: "v8_values sin_rounded cos_rounded"
proof -
  have s: "round64 (sin angle12) = sin12"
  proof -
    have "round_half_even (sin angle12 * 2 ^ 55) = 7490808106342645"
      using sin_angle12 by (intro round_half_even_near) simp_all
    moreover have "round64 (sin angle12) = of_int (round_half_even (sin angle12 * 2 ^ 55)) / 2 ^ 55"
      using sin_angle12 by (intro round64_scaled) (simp_all add: abs_if)
    ultimately show ?thesis by (simp add: sin12_def)
  qed
  have s': "round64 (- sin angle12) = - sin12"
  proof -
    have "round_half_even (- sin angle12 * 2 ^ 55) = - 7490808106342645"
      using sin_angle12 by (intro round_half_even_near) simp_all
    moreover have "round64 (- sin angle12) = of_int (round_half_even (- sin angle12 * 2 ^ 55)) / 2 ^ 55"
      using sin_angle12 by (intro round64_scaled) (simp_all add: abs_if)
    ultimately show ?thesis by (simp add: sin12_def)
  qed
  have c: "round64 (cos angle12) = cos12"
  proof -
    have "round_half_even (cos angle12 * 2 ^ 53) = 8810370340356224"
      using cos_angle12 by (intro round_half_even_near) simp_all
    moreover have "round64 (cos angle12) = of_int (round_half_even (cos angle12 * 2 ^ 53)) / 2 ^ 53"
      using cos_angle12 by (intro round64_scaled) (simp_all add: abs_if)
    ultimately show ?thesis by (simp add: cos12_def)
  qed
  have h: "round64 (sin half_pi64) = 1"
    using sin_half_pi64 by (rule round64_unit)
  have h': "round64 (- sin half_pi64) = - 1"
    using sin_half_pi64 by (rule round64_neg_unit)
  show ?thesis
    by (simp add: v8_values_def sin_rounded_def cos_rounded_def s s' c h h')
qed

lemma antipodal_NaN:
  assumes "v8_values sin64 cos64"
  shows "calculateDistance_binary64 sin64 cos64 (Fin 12) (Fin 0) (Fin (- 12)) (Fin 180) = NaN"
    and "calculateDistance_binary64 sin64 cos64 (Fin (- 12)) (Fin 180) (Fin 12) (Fin 0) = NaN"
proof -
  show "calculateDistance_binary64 sin64 cos64 (Fin 12) (Fin 0) (Fin (- 12)) (Fin 180) = NaN"
    using assms unfolding sample_defs by (intro antipodal_forward) simp_all
  show "calculateDistance_binary64 sin64 cos64 (Fin (- 12)) (Fin 180) (Fin 12) (Fin 0) = NaN"
    using assms unfolding sample_defs by (intro antipodal_backward) simp_all
qed

text \<open>
  Claim C6 says that the distance between two valid points is a non-negative number. In
  exact arithmetic it is (lemma \<open>calculateDistance_valid\<close>). In binary64 it is not when
  the points are antipodal: between \<open>(12, 0)\<close> and \<open>(-12, 180)\<close> the rounded sum \<open>a\<close>
  is \<open>1 + 2\<^sup>-\<^sup>5\<^sup>2\<close>, the root of \<open>1 - a\<close> is \<open>NaN\<close>, and so is the distance. This holds
  for every sine and cosine that have the values of V8 at the arguments that occur, and the
  correctly rounded sine and cosine are such functions.
\<close>

theorem calculateDistance_antipodal_NaN:
  "v8_values sin64 cos64 \<longrightarrow>
   valid_GeoPoint (Fin 12) (Fin 0) \<and> valid_GeoPoint (Fin (- 12)) (Fin 180) \<and>
   calculateDistance_binary64 sin64 cos64 (Fin 12) (Fin 0) (Fin (- 12)) (Fin 180) = NaN \<and>
   \<not> Fin 0 \<le> calculateDistance_binary64 sin64 cos64 (Fin 12) (Fin 0) (Fin (- 12)) (Fin 180)"
  using antipodal_NaN(1) [of sin64 cos64]
  by (simp add: valid_GeoPoint_def less_eq_number_def)

theorem calculateDistance_antipodal_NaN_witness:
  "v8_values sin_rounded cos_rounded \<and>
   valid_GeoPoint (Fin 12) (Fin 0) \<and> valid_GeoPoint (Fin (- 12)) (Fin 180) \<and>
   calculateDistance_binary64 sin_rounded cos_rounded (Fin 12) (Fin 0) (Fin (- 12)) (Fin 180) = NaN"
  using calculateDistance_antipodal_NaN [of sin_rounded cos_rounded] v8_values_rounded
  by blast

text \<open>
  Claim C5 says that the distance from \<open>a\<close> to \<open>b\<close> equals the distance from \<open>b\<close> to
  \<open>a\<close>. The two are the same value (in exact arithmetic, lemma
  \<open>calculateDistance_swap\<close>). Between the antipodal points \<open>(12, 0)\<close> and
  \<open>(-12, 180)\<close> that value is \<open>NaN\<close> in binary64, in both directions, and \<open>NaN\<close> is not
  equal to itself: the comparison with \<^verbatim>\<open>==\<close> is false.
\<close>

theorem calculateDistance_antipodal_not_equal:
  "v8_values sin64 cos64 \<longrightarrow>
   calculateDistance_binary64 sin64 cos64 (Fin 12) (Fin 0) (Fin (- 12)) (Fin 180) = NaN \<and>
   calculateDistance_binary64 sin64 cos64 (Fin (- 12)) (Fin 180) (Fin 12) (Fin 0) = NaN \<and>
   \<not> strict_eq (calculateDistance_binary64 sin64 cos64 (Fin 12) (Fin 0) (Fin (- 12)) (Fin 180))
     (calculateDistance_binary64 sin64 cos64 (Fin (- 12)) (Fin 180) (Fin 12) (Fin 0))"
  using antipodal_NaN [of sin64 cos64]
  by (simp add: strict_eq_def)

theorem calculateDistance_antipodal_not_equal_witness:
  "v8_values sin_rounded cos_rounded \<and>
   \<not> strict_eq (calculateDistance_binary64 sin_rounded cos_rounded (Fin 12) (Fin 0) (Fin (- 12)) (Fin 180))
     (calculateDistance_binary64 sin_rounded cos_rounded (Fin (- 12)) (Fin 180) (Fin 12) (Fin 0))"
  using calculateDistance_antipodal_not_equal [of sin_rounded cos_rounded] v8_values_rounded
  by blast

end
